theory Spec2Isabelle
  imports Complex_Main
begin

section \<open>Python numbers\<close>

text \<open>
  The server (\<^verbatim>\<open>src/server.py\<close>) computes with Python floats, which are IEEE 754
  binary64 values, and with Python's unbounded integers. A float is modelled by its exact
  rational value, or one of the three special values; every arithmetic result is rounded
  to the nearest binary64 value, ties to even, by \<open>round_double\<close>. The sign of a zero is
  not represented: no operation of this program distinguishes \<open>-0.0\<close> from \<open>0.0\<close>.
\<close>

datatype pyfloat = Fin rat | PInf | NInf | NaN

definition pow2 :: "int \<Rightarrow> rat" where
  "pow2 e = power_int 2 e"

text \<open>\<open>ilog2 a\<close> is the binary exponent of a positive rational: \<open>2^e \<le> a < 2^(e+1)\<close>.\<close>

function ilog2 :: "rat \<Rightarrow> int" where
  "ilog2 a = (if a \<le> 0 then 0
              else if 2 \<le> a then ilog2 (a / 2) + 1
              else if a < 1 then ilog2 (2 * a) - 1
              else 0)"
  by pat_completeness auto
termination
proof (relation "measure (\<lambda>a. nat \<lceil>a\<rceil> + 2 * nat \<lceil>1 / a\<rceil>)")
  show "wf (measure (\<lambda>a::rat. nat \<lceil>a\<rceil> + 2 * nat \<lceil>1 / a\<rceil>))"
    by simp
next
  fix a :: rat
  assume "\<not> a \<le> 0" and big: "2 \<le> a"
  have "a / 2 \<le> a - 1" using big by simp
  then have "\<lceil>a / 2\<rceil> \<le> \<lceil>a - 1\<rceil>" by (rule ceiling_mono)
  then have less: "\<lceil>a / 2\<rceil> < \<lceil>a\<rceil>" by simp
  have "0 < \<lceil>a\<rceil>" using big by (simp add: less_ceiling_iff)
  with less have shrink: "nat \<lceil>a / 2\<rceil> < nat \<lceil>a\<rceil>" by simp
  have "0 < 1 / a" "1 / a \<le> 1" using big by simp_all
  then have inv: "\<lceil>1 / a\<rceil> = 1" by (simp add: ceiling_eq_iff)
  have "0 < 1 / (a / 2)" "1 / (a / 2) \<le> 1" using big by simp_all
  then have inv_half: "\<lceil>1 / (a / 2)\<rceil> = 1" by (simp add: ceiling_eq_iff)
  show "(a / 2, a) \<in> measure (\<lambda>a. nat \<lceil>a\<rceil> + 2 * nat \<lceil>1 / a\<rceil>)"
    using shrink inv inv_half by simp
next
  fix a :: rat
  assume "\<not> a \<le> 0" and "\<not> 2 \<le> a" and small: "a < 1"
  then have pos: "0 < a" by simp
  have one: "\<lceil>a\<rceil> = 1" using pos small by (simp add: ceiling_eq_iff)
  have "2 * a \<le> 2" using small by simp
  then have two: "\<lceil>2 * a\<rceil> \<le> 2" by (simp add: ceiling_le_iff)
  have "1 < 1 / a" using pos small by simp
  then have n: "2 \<le> \<lceil>1 / a\<rceil>" by (simp add: le_ceiling_iff)
  have "1 / a \<le> of_int \<lceil>1 / a\<rceil>" by (rule le_of_int_ceiling)
  then have "1 / (2 * a) \<le> of_int \<lceil>1 / a\<rceil> / 2" by simp
  also have "\<dots> \<le> of_int (\<lceil>1 / a\<rceil> - 1)" using n by simp
  finally have inv: "\<lceil>1 / (2 * a)\<rceil> \<le> \<lceil>1 / a\<rceil> - 1" by (rule ceiling_le)
  have "nat \<lceil>2 * a\<rceil> + 2 * nat \<lceil>1 / (2 * a)\<rceil> < nat \<lceil>a\<rceil> + 2 * nat \<lceil>1 / a\<rceil>"
    using one two inv n by linarith
  then show "(2 * a, a) \<in> measure (\<lambda>a. nat \<lceil>a\<rceil> + 2 * nat \<lceil>1 / a\<rceil>)"
    by simp
qed

declare ilog2.simps [simp del]

definition round_half_even :: "rat \<Rightarrow> int" where
  "round_half_even q =
     (if q - of_int \<lfloor>q\<rfloor> < 1 / 2 then \<lfloor>q\<rfloor>
      else if 1 / 2 < q - of_int \<lfloor>q\<rfloor> then \<lfloor>q\<rfloor> + 1
      else if even \<lfloor>q\<rfloor> then \<lfloor>q\<rfloor> else \<lfloor>q\<rfloor> + 1)"

text \<open>
  The spacing of binary64 values around a positive \<open>a\<close>: 53 significant bits, and the
  fixed spacing \<open>2^-1074\<close> of the subnormal range.
\<close>

definition quantum :: "rat \<Rightarrow> rat" where
  "quantum a = pow2 (max (ilog2 a - 52) (- 1074))"

definition round_to :: "rat \<Rightarrow> rat \<Rightarrow> rat" where
  "round_to u a = of_int (round_half_even (a / u)) * u"

definition round_double :: "rat \<Rightarrow> pyfloat" where
  "round_double q =
     (if q = 0 then Fin 0
      else if pow2 1024 \<le> round_to (quantum \<bar>q\<bar>) \<bar>q\<bar>
        then (if 0 < q then PInf else NInf)
      else Fin (if 0 < q then round_to (quantum \<bar>q\<bar>) \<bar>q\<bar>
                else - round_to (quantum \<bar>q\<bar>) \<bar>q\<bar>))"

text \<open>A decimal literal of the source, such as \<^verbatim>\<open>0.15\<close>, denotes the nearest binary64 value.\<close>

definition lit :: "rat \<Rightarrow> pyfloat" where
  "lit q = round_double q"

fun fl_neg :: "pyfloat \<Rightarrow> pyfloat" where
  "fl_neg (Fin q) = Fin (- q)"
| "fl_neg PInf = NInf"
| "fl_neg NInf = PInf"
| "fl_neg NaN = NaN"

fun fl_abs :: "pyfloat \<Rightarrow> pyfloat" where
  "fl_abs (Fin q) = Fin \<bar>q\<bar>"
| "fl_abs PInf = PInf"
| "fl_abs NInf = PInf"
| "fl_abs NaN = NaN"

fun fl_add :: "pyfloat \<Rightarrow> pyfloat \<Rightarrow> pyfloat" where
  "fl_add (Fin a) (Fin b) = round_double (a + b)"
| "fl_add NaN y = NaN"
| "fl_add x NaN = NaN"
| "fl_add PInf NInf = NaN"
| "fl_add NInf PInf = NaN"
| "fl_add PInf y = PInf"
| "fl_add x PInf = PInf"
| "fl_add NInf y = NInf"
| "fl_add x NInf = NInf"

definition fl_sub :: "pyfloat \<Rightarrow> pyfloat \<Rightarrow> pyfloat" where
  "fl_sub x y = fl_add x (fl_neg y)"

text \<open>
  Division of a float by a positive integer constant (the program divides by 1000 and by
  1000000 only, both exact as floats). Such a division never raises and never overflows.
\<close>

fun fl_div :: "pyfloat \<Rightarrow> int \<Rightarrow> pyfloat" where
  "fl_div (Fin a) c = round_double (a / of_int c)"
| "fl_div x c = x"

text \<open>Comparison is by exact value; every comparison with NaN is false.\<close>

fun fl_lt :: "pyfloat \<Rightarrow> pyfloat \<Rightarrow> bool" where
  "fl_lt (Fin a) (Fin b) = (a < b)"
| "fl_lt NaN y = False"
| "fl_lt x NaN = False"
| "fl_lt x NInf = False"
| "fl_lt PInf y = False"
| "fl_lt NInf y = True"
| "fl_lt x PInf = True"

fun fl_le :: "pyfloat \<Rightarrow> pyfloat \<Rightarrow> bool" where
  "fl_le (Fin a) (Fin b) = (a \<le> b)"
| "fl_le NaN y = False"
| "fl_le x NaN = False"
| "fl_le NInf y = True"
| "fl_le x PInf = True"
| "fl_le x NInf = False"
| "fl_le PInf y = False"

text \<open>
  Conversion of a float to a 64-bit integer truncates toward zero. An infinity or NaN
  converts to the least 64-bit integer; the program never converts one, since the quotient
  of a 64-bit integer by a positive constant is finite.
\<close>

fun fl_trunc :: "pyfloat \<Rightarrow> int" where
  "fl_trunc (Fin q) = (if 0 \<le> q then \<lfloor>q\<rfloor> else \<lceil>q\<rceil>)"
| "fl_trunc x = - (2 ^ 63)"

section \<open>Python values and exceptions\<close>

text \<open>
  A feature value arrives as a JSON scalar: an integer (unbounded), a float, null or a
  string. JSON \<^verbatim>\<open>true\<close> and \<^verbatim>\<open>false\<close> behave as the integers 1 and 0 in every operation
  of this program and are represented by them. Arrays and objects as feature values are
  not represented.
\<close>

datatype pyval = PInt int | PFloat pyfloat | PNone | PStr string

datatype exc = TypeError | OverflowError | IndexError | AttributeError | ValueError

definition and_then :: "exc + 'a \<Rightarrow> ('a \<Rightarrow> exc + 'b) \<Rightarrow> exc + 'b" where
  "and_then r k = (case r of Inl e \<Rightarrow> Inl e | Inr x \<Rightarrow> k x)"

fun num_val :: "pyval \<Rightarrow> pyfloat option" where
  "num_val (PInt i) = Some (Fin (of_int i))"
| "num_val (PFloat x) = Some x"
| "num_val PNone = None"
| "num_val (PStr s) = None"

text \<open>
  \<^verbatim>\<open>v > c\<close> and \<^verbatim>\<open>v < c\<close> for a numeric constant \<open>c\<close>: Python compares an integer with a
  float by exact value, and raises TypeError for null or a string.
\<close>

definition py_gt :: "pyval \<Rightarrow> pyfloat \<Rightarrow> exc + bool" where
  "py_gt v c = (case num_val v of None \<Rightarrow> Inl TypeError | Some x \<Rightarrow> Inr (fl_lt c x))"

text \<open>
  \<^verbatim>\<open>v / c\<close> for a positive integer constant \<open>c\<close>. The quotient of two integers is the
  correctly rounded float, and OverflowError when it is too large for a float.
\<close>

fun py_truediv :: "pyval \<Rightarrow> int \<Rightarrow> exc + pyfloat" where
  "py_truediv (PInt i) c =
     (case round_double (of_int i / of_int c) of
        Fin r \<Rightarrow> Inr (Fin r)
      | PInf \<Rightarrow> Inl OverflowError
      | NInf \<Rightarrow> Inl OverflowError
      | NaN \<Rightarrow> Inl OverflowError)"
| "py_truediv (PFloat x) c = Inr (fl_div x c)"
| "py_truediv PNone c = Inl TypeError"
| "py_truediv (PStr s) c = Inl TypeError"

text \<open>\<^verbatim>\<open>min(a, b)\<close> and \<^verbatim>\<open>max(a, b)\<close> keep the first argument unless the second is strictly better.\<close>

definition py_min :: "pyfloat \<Rightarrow> pyfloat \<Rightarrow> pyfloat" where
  "py_min a b = (if fl_lt b a then b else a)"

definition py_max :: "pyfloat \<Rightarrow> pyfloat \<Rightarrow> pyfloat" where
  "py_max a b = (if fl_lt a b then b else a)"

section \<open>Feature mappings\<close>

type_synonym features = "string \<Rightarrow> pyval option"

definition dict_get :: "features \<Rightarrow> string \<Rightarrow> pyval \<Rightarrow> pyval" where
  "dict_get d k dflt = (case d k of None \<Rightarrow> dflt | Some v \<Rightarrow> v)"

definition feature_names :: "string list" where
  "feature_names =
     [''avg_reaction_time'', ''reaction_time_variance'', ''task_accuracy'',
      ''hesitation_time'', ''cursor_path_length'', ''cursor_direction_changes'',
      ''speed_variance'']"

section \<open>The feature vector: a one-row numpy array\<close>

text \<open>
  \<^verbatim>\<open>np.array([[...]])\<close> gives all elements one common element type, found from the
  values: a Python integer is int64 when it fits, else uint64 when it fits, else a Python
  object; a float is float64; null is an object; a string is a unicode string. Different
  element types are promoted: an object wins, then unicode, and two different numeric types
  give float64. An integer or float array stores machine numbers, so an integer put into
  a float64 array is rounded to the nearest float. An object array stores the Python
  values themselves. \<open>IntArr\<close> stands for both integer element types, which the program
  treats alike. A unicode array stores the text of every element; the values are
  kept here because the program never reads more of a unicode element than its type.
\<close>

datatype dtype = Int64 | UInt64 | Float64 | Object | Unicode

fun scalar_dtype :: "pyval \<Rightarrow> dtype" where
  "scalar_dtype (PInt i) =
     (if - (2 ^ 63) \<le> i \<and> i < 2 ^ 63 then Int64
      else if 0 \<le> i \<and> i < 2 ^ 64 then UInt64 else Object)"
| "scalar_dtype (PFloat x) = Float64"
| "scalar_dtype PNone = Object"
| "scalar_dtype (PStr s) = Unicode"

definition promote_types :: "dtype \<Rightarrow> dtype \<Rightarrow> dtype" where
  "promote_types a b =
     (if a = b then a
      else if a = Object \<or> b = Object then Object
      else if a = Unicode \<or> b = Unicode then Unicode
      else Float64)"

fun result_dtype :: "pyval list \<Rightarrow> dtype" where
  "result_dtype [] = Float64"
| "result_dtype (v # vs) = foldl promote_types (scalar_dtype v) (map scalar_dtype vs)"

datatype ndarray =
    IntArr "int list"
  | FloatArr "pyfloat list"
  | ObjArr "pyval list"
  | StrArr "pyval list"

fun to_int :: "pyval \<Rightarrow> int" where
  "to_int (PInt i) = i"
| "to_int v = 0"

fun to_double :: "pyval \<Rightarrow> pyfloat" where
  "to_double (PInt i) = round_double (of_int i)"
| "to_double (PFloat x) = x"
| "to_double v = NaN"

definition np_array :: "pyval list \<Rightarrow> ndarray" where
  "np_array vs =
     (case result_dtype vs of
        Int64 \<Rightarrow> IntArr (map to_int vs)
      | UInt64 \<Rightarrow> IntArr (map to_int vs)
      | Float64 \<Rightarrow> FloatArr (map to_double vs)
      | Object \<Rightarrow> ObjArr vs
      | Unicode \<Rightarrow> StrArr vs)"

text \<open>\<^verbatim>\<open>extract_feature_vector\<close>, lines 41-51.\<close>

definition extract_feature_vector :: "features \<Rightarrow> ndarray" where
  "extract_feature_vector f =
     np_array
       [dict_get f ''avg_reaction_time'' (PInt 0),
        dict_get f ''reaction_time_variance'' (PInt 0),
        dict_get f ''task_accuracy'' (PInt 0),
        dict_get f ''hesitation_time'' (PInt 0),
        dict_get f ''cursor_path_length'' (PInt 0),
        dict_get f ''cursor_direction_changes'' (PInt 0),
        dict_get f ''speed_variance'' (PInt 0)]"

fun nd_len :: "ndarray \<Rightarrow> nat" where
  "nd_len (IntArr xs) = length xs"
| "nd_len (FloatArr xs) = length xs"
| "nd_len (ObjArr vs) = length vs"
| "nd_len (StrArr vs) = length vs"

text \<open>The numeric value of \<^verbatim>\<open>X[0, i]\<close>, if it is a number.\<close>

fun nd_num :: "ndarray \<Rightarrow> nat \<Rightarrow> pyfloat option" where
  "nd_num (IntArr xs) i = (if i < length xs then Some (Fin (of_int (xs ! i))) else None)"
| "nd_num (FloatArr xs) i = (if i < length xs then Some (xs ! i) else None)"
| "nd_num (ObjArr vs) i = (if i < length vs then num_val (vs ! i) else None)"
| "nd_num (StrArr vs) i = None"

text \<open>\<^verbatim>\<open>X[0, i] > c\<close> for an integer constant \<open>c\<close>.\<close>

fun nd_gt :: "ndarray \<Rightarrow> nat \<Rightarrow> int \<Rightarrow> exc + bool" where
  "nd_gt (IntArr xs) i c = (if i < length xs then Inr (c < xs ! i) else Inl IndexError)"
| "nd_gt (FloatArr xs) i c =
     (if i < length xs then Inr (fl_lt (Fin (of_int c)) (xs ! i)) else Inl IndexError)"
| "nd_gt (ObjArr vs) i c =
     (if i < length vs then py_gt (vs ! i) (Fin (of_int c)) else Inl IndexError)"
| "nd_gt (StrArr vs) i c = (if i < length vs then Inl TypeError else Inl IndexError)"

text \<open>
  \<^verbatim>\<open>X[0, i] /= c\<close>: the element is read, divided as a float, and the quotient is stored
  back with a cast to the array's element type. In an integer array the cast truncates.
\<close>

fun nd_itruediv :: "ndarray \<Rightarrow> nat \<Rightarrow> int \<Rightarrow> exc + ndarray" where
  "nd_itruediv (IntArr xs) i c =
     (if i < length xs
      then Inr (IntArr (xs[i := fl_trunc (fl_div (round_double (of_int (xs ! i))) c)]))
      else Inl IndexError)"
| "nd_itruediv (FloatArr xs) i c =
     (if i < length xs then Inr (FloatArr (xs[i := fl_div (xs ! i) c])) else Inl IndexError)"
| "nd_itruediv (ObjArr vs) i c =
     (if i < length vs
      then and_then (py_truediv (vs ! i) c) (\<lambda>q. Inr (ObjArr (vs[i := PFloat q])))
      else Inl IndexError)"
| "nd_itruediv (StrArr vs) i c = (if i < length vs then Inl TypeError else Inl IndexError)"

text \<open>\<^verbatim>\<open>normalize_features\<close>, lines 53-68.\<close>

definition normalize_features :: "ndarray \<Rightarrow> exc + ndarray" where
  "normalize_features X =
     and_then (nd_gt X 0 100) (\<lambda>ms.
     and_then (if ms then and_then (nd_itruediv X 0 1000) (\<lambda>Y. nd_itruediv Y 3 1000)
               else Inr X) (\<lambda>X1.
     and_then (nd_gt X1 1 100000) (\<lambda>big_var.
     and_then (if big_var then nd_itruediv X1 1 1000000 else Inr X1) (\<lambda>X2.
     and_then (nd_gt X2 4 1000) (\<lambda>long_path.
     if long_path then nd_itruediv X2 4 1000 else Inr X2)))))"

section \<open>Explainability\<close>

record contribution =
  name :: string
  weight :: pyfloat
  positive :: bool

definition entry :: "string \<Rightarrow> pyfloat \<Rightarrow> bool \<Rightarrow> contribution" where
  "entry n w p = \<lparr>name = n, weight = w, positive = p\<rparr>"

text \<open>
  The list built by lines 72-168 of \<^verbatim>\<open>get_feature_importance\<close>, before it is sorted.
  The six readings are taken in the order of the source, so the first one that raises
  decides the exception; \<open>entries_of\<close> is the list appended from them.
\<close>

definition entries_of ::
  "pyfloat \<Rightarrow> bool \<Rightarrow> bool \<Rightarrow> bool \<Rightarrow> bool \<Rightarrow> pyfloat \<Rightarrow> contribution list" where
  "entries_of rt var_hi acc_hi dir_hi speed_hi hesitation =
       [if fl_lt rt (Fin 2) then entry ''avg_reaction_time'' (lit (22 / 100)) True
        else entry ''avg_reaction_time'' (fl_neg (lit (12 / 100))) False,
        if var_hi then entry ''reaction_time_variance'' (lit (18 / 100)) True
        else entry ''reaction_time_variance'' (fl_neg (lit (15 / 100))) False,
        if acc_hi then entry ''task_accuracy'' (lit (15 / 100)) True
        else entry ''task_accuracy'' (fl_neg (lit (10 / 100))) False,
        if dir_hi then entry ''cursor_entropy'' (lit (12 / 100)) True
        else entry ''cursor_entropy'' (lit (5 / 100)) True,
        if speed_hi then entry ''speed_variance'' (lit (14 / 100)) True
        else entry ''speed_variance'' (fl_neg (lit (8 / 100))) False,
        if fl_lt (lit (2 / 10)) hesitation \<and> fl_lt hesitation (lit (15 / 10))
        then entry ''hesitation_time'' (lit (10 / 100)) True
        else if fl_lt hesitation (lit (2 / 10))
        then entry ''hesitation_time'' (fl_neg (lit (6 / 100))) False
        else entry ''hesitation_time'' (lit (3 / 100)) True]"

definition importance_entries :: "features \<Rightarrow> exc + contribution list" where
  "importance_entries f =
     and_then (py_truediv (dict_get f ''avg_reaction_time'' (PInt 0)) 1000) (\<lambda>rt.
     and_then (py_gt (dict_get f ''reaction_time_variance'' (PInt 0)) (Fin 100000)) (\<lambda>var_hi.
     and_then (py_gt (dict_get f ''task_accuracy'' (PInt 0)) (lit (6 / 10))) (\<lambda>acc_hi.
     and_then (py_gt (dict_get f ''cursor_direction_changes'' (PInt 0)) (Fin 5)) (\<lambda>dir_hi.
     and_then (py_gt (dict_get f ''speed_variance'' (PInt 0)) (lit (1 / 100))) (\<lambda>speed_hi.
     and_then (py_truediv (dict_get f ''hesitation_time'' (PInt 0)) 1000) (\<lambda>hesitation.
     Inr (entries_of rt var_hi acc_hi dir_hi speed_hi hesitation)))))))"

text \<open>
  \<^verbatim>\<open>list.sort(key=..., reverse=True)\<close> is a stable sort into descending order of the
  key: each element is placed behind every earlier element whose key is not smaller.
\<close>

definition abs_weight :: "contribution \<Rightarrow> pyfloat" where
  "abs_weight c = fl_abs (weight c)"

fun insert_desc :: "('a \<Rightarrow> pyfloat) \<Rightarrow> 'a \<Rightarrow> 'a list \<Rightarrow> 'a list" where
  "insert_desc k x [] = [x]"
| "insert_desc k x (y # ys) =
     (if fl_lt (k y) (k x) then x # y # ys else y # insert_desc k x ys)"

definition sort_desc :: "('a \<Rightarrow> pyfloat) \<Rightarrow> 'a list \<Rightarrow> 'a list" where
  "sort_desc k xs = foldl (\<lambda>acc x. insert_desc k x acc) [] xs"

text \<open>\<^verbatim>\<open>get_feature_importance\<close>, lines 70-173. The confidence argument is never read.\<close>

definition get_feature_importance :: "features \<Rightarrow> pyfloat \<Rightarrow> exc + contribution list" where
  "get_feature_importance f confidence =
     and_then (importance_entries f) (\<lambda>es. Inr (sort_desc abs_weight es))"

section \<open>Rule-based scoring\<close>

text \<open>
  The value of \<^verbatim>\<open>score\<close> at line 272 of \<^verbatim>\<open>fallback_scoring\<close>, before the clamp:
  \<open>score_of\<close> is the sum accumulated from the five readings.
\<close>

definition score_of :: "pyfloat \<Rightarrow> bool \<Rightarrow> bool \<Rightarrow> bool \<Rightarrow> bool \<Rightarrow> pyfloat" where
  "score_of rt var_hi acc_hi dir_hi speed_hi =
       (let s0 = lit (5 / 10);
            s1 = (if fl_lt rt (Fin 2) then fl_add s0 (lit (15 / 100))
                  else if fl_lt (Fin 5) rt then fl_sub s0 (lit (10 / 100)) else s0);
            s2 = (if var_hi then fl_add s1 (lit (15 / 100)) else fl_sub s1 (lit (10 / 100)));
            s3 = (if acc_hi then fl_add s2 (lit (10 / 100)) else fl_sub s2 (lit (5 / 100)));
            s4 = (if dir_hi then fl_add s3 (lit (10 / 100)) else s3)
        in if speed_hi then fl_add s4 (lit (10 / 100)) else s4)"

definition fallback_score :: "features \<Rightarrow> exc + pyfloat" where
  "fallback_score f =
     and_then (py_truediv (dict_get f ''avg_reaction_time'' (PInt 0)) 1000) (\<lambda>rt.
     and_then (py_gt (dict_get f ''reaction_time_variance'' (PInt 0)) (Fin 100000)) (\<lambda>var_hi.
     and_then (py_gt (dict_get f ''task_accuracy'' (PInt 0)) (lit (6 / 10))) (\<lambda>acc_hi.
     and_then (py_gt (dict_get f ''cursor_direction_changes'' (PInt 0)) (Fin 5)) (\<lambda>dir_hi.
     and_then (py_gt (dict_get f ''speed_variance'' (PInt 0)) (lit (1 / 100))) (\<lambda>speed_hi.
     Inr (score_of rt var_hi acc_hi dir_hi speed_hi))))))"

text \<open>\<^verbatim>\<open>fallback_scoring\<close>, lines 237-273.\<close>

definition fallback_scoring :: "features \<Rightarrow> exc + pyfloat" where
  "fallback_scoring f =
     and_then (fallback_score f) (\<lambda>score.
       Inr (py_max (lit (2 / 10)) (py_min (lit (95 / 100)) score)))"

section \<open>The verification endpoint\<close>

text \<open>
  The trained artifact is the global \<^verbatim>\<open>model\<close>: \<open>None\<close> when no file was loaded,
  otherwise \<open>Some p\<close> where \<open>p X\<close> is the outcome of
  \<^verbatim>\<open>model.predict_proba(X)[0][1]\<close>, an exception or the probability of the human class.
  The time stamp is a parameter. The result is the response of line 228, or the
  error of lines 230-235 with the exception and the session identifier.
\<close>

record response =
  sessionId :: pyval
  confidence :: pyfloat
  featureImportance :: "contribution list"
  features_echo :: features
  timestamp :: string
  modelUsed :: string

type_synonym model = "(ndarray \<Rightarrow> exc + pyfloat) option"

definition estimate :: "model \<Rightarrow> ndarray \<Rightarrow> features \<Rightarrow> exc + pyfloat" where
  "estimate m X f =
     (case m of
        Some p \<Rightarrow> (case p X of Inr c \<Rightarrow> Inr c | Inl e \<Rightarrow> fallback_scoring f)
      | None \<Rightarrow> fallback_scoring f)"

definition verify_body :: "model \<Rightarrow> pyval \<Rightarrow> string \<Rightarrow> features \<Rightarrow> exc + response" where
  "verify_body m session_id now f =
     and_then (normalize_features (extract_feature_vector f)) (\<lambda>X.
     and_then (estimate m X f) (\<lambda>c.
     and_then (get_feature_importance f c) (\<lambda>fi.
     Inr \<lparr>sessionId = session_id, confidence = c, featureImportance = fi,
          features_echo = f, timestamp = now,
          modelUsed = (if m \<noteq> None then ''ML'' else ''Rule-based'')\<rparr>)))"

definition verify :: "model \<Rightarrow> pyval \<Rightarrow> string \<Rightarrow> features \<Rightarrow> (exc \<times> pyval) + response" where
  "verify m session_id now f =
     (case verify_body m session_id now f of
        Inl e \<Rightarrow> Inl (e, session_id)
      | Inr r \<Rightarrow> Inr r)"

section \<open>Inputs and predicates used in the statements\<close>

text \<open>The human-like sample of the specification's scenario, as the JSON parser delivers it.\<close>

definition human_sample :: features where
  "human_sample =
     [''avg_reaction_time'' \<mapsto> PInt 1800,
      ''reaction_time_variance'' \<mapsto> PInt 500000,
      ''task_accuracy'' \<mapsto> PFloat (lit (85 / 100)),
      ''hesitation_time'' \<mapsto> PInt 600,
      ''cursor_path_length'' \<mapsto> PInt 500,
      ''cursor_direction_changes'' \<mapsto> PInt 15,
      ''speed_variance'' \<mapsto> PFloat (lit (5 / 100))]"

text \<open>Its ranking, and the two responses to it that the statements compare.\<close>

definition human_ranking :: "contribution list" where
  "human_ranking =
     [entry ''avg_reaction_time'' (lit (22 / 100)) True,
      entry ''reaction_time_variance'' (lit (18 / 100)) True,
      entry ''task_accuracy'' (lit (15 / 100)) True,
      entry ''speed_variance'' (lit (14 / 100)) True,
      entry ''cursor_entropy'' (lit (12 / 100)) True,
      entry ''hesitation_time'' (lit (10 / 100)) True]"

definition rule_based_response :: response where
  "rule_based_response =
     \<lparr>sessionId = PStr ''s1'', confidence = lit (95 / 100), featureImportance = human_ranking,
      features_echo = human_sample, timestamp = ''t1'', modelUsed = ''Rule-based''\<rparr>"

definition model_response :: response where
  "model_response =
     \<lparr>sessionId = PStr ''s2'', confidence = lit (5 / 10), featureImportance = human_ranking,
      features_echo = human_sample, timestamp = ''t2'', modelUsed = ''ML''\<rparr>"

text \<open>
  Kinds of values. A number is an integer or a float. A number is \<open>float_sized\<close> when its
  quotient by a constant above 1 fits a float: any float, and an integer of magnitude below
  \<open>2^1024\<close>. It is \<open>exact_in_float\<close> when a float64 array stores it without rounding: any
  float, and an integer of magnitude at most \<open>2^53\<close>.
\<close>

definition is_number :: "pyval \<Rightarrow> bool" where
  "is_number v = (num_val v \<noteq> None)"

fun is_int :: "pyval \<Rightarrow> bool" where
  "is_int (PInt i) = True"
| "is_int v = False"

fun float_sized :: "pyval \<Rightarrow> bool" where
  "float_sized (PInt i) = (\<bar>i\<bar> < 2 ^ 1024)"
| "float_sized (PFloat x) = True"
| "float_sized PNone = False"
| "float_sized (PStr s) = False"

fun exact_in_float :: "pyval \<Rightarrow> bool" where
  "exact_in_float (PInt i) = (\<bar>i\<bar> \<le> 2 ^ 53)"
| "exact_in_float (PFloat x) = True"
| "exact_in_float PNone = False"
| "exact_in_float (PStr s) = False"

text \<open>
  Kinds of mappings, by the values under the keys that are read, an absent key counting as
  its default 0: the five keys of the rule-based strategy, the six keys of the Ranker, and
  all seven keys.
\<close>

definition scorable :: "features \<Rightarrow> bool" where
  "scorable f =
     (float_sized (dict_get f ''avg_reaction_time'' (PInt 0)) \<and>
      is_number (dict_get f ''reaction_time_variance'' (PInt 0)) \<and>
      is_number (dict_get f ''task_accuracy'' (PInt 0)) \<and>
      is_number (dict_get f ''cursor_direction_changes'' (PInt 0)) \<and>
      is_number (dict_get f ''speed_variance'' (PInt 0)))"

definition rankable :: "features \<Rightarrow> bool" where
  "rankable f = (scorable f \<and> float_sized (dict_get f ''hesitation_time'' (PInt 0)))"

definition well_typed :: "features \<Rightarrow> bool" where
  "well_typed f = (\<forall>k \<in> set feature_names. float_sized (dict_get f k (PInt 0)))"

text \<open>Slot \<open>i\<close> of a vector holds a number that is at most \<open>c\<close>.\<close>

definition slot_le :: "ndarray \<Rightarrow> nat \<Rightarrow> int \<Rightarrow> bool" where
  "slot_le X i c = (case nd_num X i of None \<Rightarrow> False | Some x \<Rightarrow> fl_le x (Fin (of_int c)))"

text \<open>A list is in non-increasing order of the key \<open>k\<close>.\<close>

definition descending :: "('a \<Rightarrow> pyfloat) \<Rightarrow> 'a list \<Rightarrow> bool" where
  "descending k xs = sorted_wrt (\<lambda>a b. fl_le (k b) (k a)) xs"

text \<open>
  Auxiliary notions of the proofs: the value of the clamp of line 273, the rational key of
  a contribution, and the vectors on which the Normalizer cannot raise.
\<close>

definition clamped :: "pyfloat \<Rightarrow> rat" where
  "clamped s =
     (case s of
        Fin x \<Rightarrow> max (3602879701896397 / 18014398509481984)
                  (min (4278419646001971 / 4503599627370496) x)
      | PInf \<Rightarrow> 4278419646001971 / 4503599627370496
      | NInf \<Rightarrow> 3602879701896397 / 18014398509481984
      | NaN \<Rightarrow> 4278419646001971 / 4503599627370496)"

definition key_of :: "contribution \<Rightarrow> rat" where
  "key_of e = (case abs_weight e of Fin q \<Rightarrow> q | PInf \<Rightarrow> 0 | NInf \<Rightarrow> 0 | NaN \<Rightarrow> 0)"

fun wf_arr :: "ndarray \<Rightarrow> bool" where
  "wf_arr (IntArr xs) = (length xs = 7)"
| "wf_arr (FloatArr xs) = (length xs = 7)"
| "wf_arr (ObjArr vs) = (length vs = 7 \<and> (\<forall>v \<in> set vs. float_sized v))"
| "wf_arr (StrArr vs) = False"

section \<open>Rounding to binary64\<close>


lemma floor_rat_numeral [simp]: "\<lfloor>(numeral a :: rat) / numeral b\<rfloor> = numeral a div numeral b"
  by (metis floor_divide_of_int_eq of_int_numeral)

lemmas fl_eval = round_double_def quantum_def round_to_def ilog2.simps pow2_def round_half_even_def

lemma lit_values:
  "lit (1 / 2) = Fin (1 / 2)"
  "lit (3 / 20) = Fin (5404319552844595 / 36028797018963968)"
  "lit (1 / 10) = Fin (3602879701896397 / 36028797018963968)"
  "lit (1 / 20) = Fin (3602879701896397 / 72057594037927936)"
  "lit (19 / 20) = Fin (4278419646001971 / 4503599627370496)"
  "lit (1 / 5) = Fin (3602879701896397 / 18014398509481984)"
  "lit (3 / 5) = Fin (5404319552844595 / 9007199254740992)"
  "lit (1 / 100) = Fin (5764607523034235 / 576460752303423488)"
  "lit (3 / 2) = Fin (3 / 2)"
  "lit (11 / 50) = Fin (7926335344172073 / 36028797018963968)"
  "lit (3 / 25) = Fin (1080863910568919 / 9007199254740992)"
  "lit (9 / 50) = Fin (3242591731706757 / 18014398509481984)"
  "lit (7 / 50) = Fin (1261007895663739 / 9007199254740992)"
  "lit (2 / 25) = Fin (5764607523034235 / 72057594037927936)"
  "lit (3 / 50) = Fin (1080863910568919 / 18014398509481984)"
  "lit (3 / 100) = Fin (1080863910568919 / 36028797018963968)"
  "lit (17 / 20) = Fin (7656119366529843 / 9007199254740992)"
  "lit (7 / 20) = Fin (3152519739159347 / 9007199254740992)"
  "lit (11 / 10) = Fin (2476979795053773 / 2251799813685248)"
  by (simp_all add: lit_def fl_eval)

lemma pow2_pos [simp]: "0 < pow2 e"
  by (simp add: pow2_def)

lemma pow2_succ: "pow2 (e + 1) = 2 * pow2 e"
  by (simp add: pow2_def power_int_add)

lemma pow2_pred: "pow2 (e - 1) = pow2 e / 2"
  by (simp add: pow2_def power_int_diff)

lemma pow2_mono: "e \<le> e' \<Longrightarrow> pow2 e \<le> pow2 e'"
  by (simp add: pow2_def power_int_increasing)

lemma pow2_less_cancel: "pow2 e < pow2 e' \<Longrightarrow> e < e'"
  by (metis pow2_mono not_le)

lemma ilog2_bounds: "0 < a \<Longrightarrow> pow2 (ilog2 a) \<le> a \<and> a < pow2 (ilog2 a + 1)"
proof (induction a rule: ilog2.induct)
  case (1 a)
  show ?case
  proof (cases "2 \<le> a")
    case True
    then have eq: "ilog2 a = ilog2 (a / 2) + 1"
      using "1.prems" by (subst ilog2.simps) simp
    have "pow2 (ilog2 (a / 2)) \<le> a / 2 \<and> a / 2 < pow2 (ilog2 (a / 2) + 1)"
      using "1.IH"(1) "1.prems" True by simp
    then show ?thesis
      unfolding eq
      using pow2_succ [of "ilog2 (a / 2)"] pow2_succ [of "ilog2 (a / 2) + 1"] by linarith
  next
    case False
    show ?thesis
    proof (cases "a < 1")
      case True
      then have eq: "ilog2 a = ilog2 (2 * a) - 1"
        using "1.prems" False by (subst ilog2.simps) simp
      have "pow2 (ilog2 (2 * a)) \<le> 2 * a \<and> 2 * a < pow2 (ilog2 (2 * a) + 1)"
        using "1.IH"(2) "1.prems" False True by simp
      then show ?thesis
        unfolding eq
        using pow2_pred [of "ilog2 (2 * a)"] pow2_succ [of "ilog2 (2 * a) - 1"]
          pow2_succ [of "ilog2 (2 * a)"] by simp
    next
      case False
      with \<open>\<not> 2 \<le> a\<close> "1.prems" have "ilog2 a = 0"
        by (subst ilog2.simps) simp
      with False \<open>\<not> 2 \<le> a\<close> show ?thesis
        by (simp add: pow2_def)
    qed
  qed
qed

lemma ilog2_less: "0 < a \<Longrightarrow> a < pow2 k \<Longrightarrow> ilog2 a < k"
  using ilog2_bounds [of a] pow2_less_cancel [of "ilog2 a" k] by simp

lemma ilog2_ge: "0 < a \<Longrightarrow> pow2 k \<le> a \<Longrightarrow> k \<le> ilog2 a"
  using ilog2_bounds [of a] pow2_less_cancel [of k "ilog2 a + 1"] by simp

lemma round_half_even_upper: "of_int (round_half_even x) \<le> x + 1 / 2"
  unfolding round_half_even_def by (auto simp: not_less) linarith+

lemma round_half_even_ge:
  assumes "of_int n \<le> x"
  shows "n \<le> round_half_even x"
proof -
  have "n \<le> \<lfloor>x\<rfloor>" using assms by (simp add: le_floor_iff)
  then show ?thesis by (simp add: round_half_even_def)
qed

lemma round_half_even_of_int [simp]: "round_half_even (of_int n) = n"
  by (simp add: round_half_even_def)


lemma round_to_upper:
  assumes "0 < u"
  shows "round_to u a \<le> a + u / 2"
proof -
  have "of_int (round_half_even (a / u)) * u \<le> (a / u + 1 / 2) * u"
    using round_half_even_upper [of "a / u"] assms by (simp only: mult_right_mono less_imp_le)
  also have "\<dots> = a + u / 2" using assms by (simp add: field_simps)
  finally show ?thesis by (simp add: round_to_def)
qed

lemma quantum_le:
  assumes "0 < a" "a < pow2 k" "- 1021 \<le> k"
  shows "quantum a \<le> pow2 (k - 53)"
proof -
  have "ilog2 a < k" using assms by (simp add: ilog2_less)
  then have "max (ilog2 a - 52) (- 1074) \<le> k - 53" using assms(3) by simp
  then show ?thesis unfolding quantum_def by (rule pow2_mono)
qed

lemma round_double_finite:
  assumes "\<bar>q\<bar> < pow2 1023"
  shows "\<exists>r. round_double q = Fin r"
proof (cases "q = 0")
  case True
  then show ?thesis by (simp add: round_double_def)
next
  case False
  then have pos: "0 < \<bar>q\<bar>" by simp
  have "quantum \<bar>q\<bar> \<le> pow2 (1023 - 53)"
    using pos assms by (rule quantum_le) simp
  moreover have "0 < quantum \<bar>q\<bar>" by (simp add: quantum_def)
  ultimately have "round_to (quantum \<bar>q\<bar>) \<bar>q\<bar> \<le> \<bar>q\<bar> + pow2 (1023 - 53) / 2"
    using round_to_upper [of "quantum \<bar>q\<bar>" "\<bar>q\<bar>"] by linarith
  also have "\<dots> < pow2 1023 + pow2 (1023 - 53) / 2" using assms by simp
  also have "\<dots> < pow2 1024" by (simp add: pow2_def)
  finally show ?thesis using False by (simp add: round_double_def)
qed

lemma round_double_overflow:
  assumes "pow2 1024 \<le> q"
  shows "round_double q = PInf"
proof -
  have pos: "0 < q" using assms pow2_pos [of 1024] by linarith
  let ?e = "ilog2 q"
  have e: "1024 \<le> ?e" using pos assms by (rule ilog2_ge)
  then have qu: "quantum q = pow2 (?e - 52)" by (simp add: quantum_def max_def)
  have "pow2 ?e \<le> q" using ilog2_bounds [OF pos] by simp
  moreover have "pow2 ?e = 2 ^ 52 * pow2 (?e - 52)"
    by (simp add: pow2_def power_int_diff)
  ultimately have "of_int (2 ^ 52) \<le> q / pow2 (?e - 52)"
    by (simp add: pos_le_divide_eq)
  then have "2 ^ 52 \<le> round_half_even (q / pow2 (?e - 52))"
    by (rule round_half_even_ge)
  then have "(2 ^ 52 :: rat) \<le> of_int (round_half_even (q / pow2 (?e - 52)))"
    by (metis of_int_le_iff of_int_numeral of_int_power)
  then have "2 ^ 52 * pow2 (?e - 52) \<le> round_to (quantum q) q"
    unfolding round_to_def qu by (simp add: mult_right_mono)
  moreover have "pow2 1024 \<le> pow2 ?e" using e by (rule pow2_mono)
  ultimately have "pow2 1024 \<le> round_to (quantum q) q"
    using \<open>pow2 ?e = 2 ^ 52 * pow2 (?e - 52)\<close> by linarith
  then show ?thesis using pos by (simp add: round_double_def)
qed


lemma round_to_exact:
  assumes "a / u = of_int n" "u \<noteq> 0"
  shows "round_to u a = a"
proof -
  have "of_int n * u = a" using assms by (metis nonzero_divide_eq_eq)
  then show ?thesis using assms(1) by (simp add: round_to_def)
qed

lemma pow2_nonpos: "e \<le> 0 \<Longrightarrow> pow2 e = 1 / 2 ^ nat (- e)"
  by (cases "e = 0") (simp_all add: pow2_def power_int_def inverse_eq_divide power_one_over)

lemma round_double_of_int_exact:
  assumes "\<bar>i\<bar> \<le> 2 ^ 53"
  shows "round_double (of_int i) = Fin (of_int i)"
proof (cases "i = 0")
  case True
  then show ?thesis by (simp add: round_double_def)
next
  case False
  let ?a = "\<bar>of_int i :: rat\<bar>"
  let ?e = "ilog2 ?a"
  have a_int: "?a = of_int \<bar>i\<bar>" by simp
  have one: "1 \<le> ?a" using False unfolding a_int by (metis of_int_1_le_iff zero_less_abs_iff int_one_le_iff_zero_less)
  then have pos: "0 < ?a" by linarith
  have le: "?a \<le> 2 ^ 53" unfolding a_int using assms by (metis of_int_le_iff of_int_numeral of_int_power)
  have e0: "0 \<le> ?e" using pos one ilog2_ge [of ?a 0] by (simp add: pow2_def)
  have "?a < pow2 54" using le by (simp add: pow2_def)
  then have e53: "?e \<le> 53" using ilog2_less [OF pos, of 54] by simp
  have exact: "round_to (quantum ?a) ?a = ?a"
  proof (cases "?e = 53")
    case True
    then have "pow2 53 \<le> ?a" using ilog2_bounds [OF pos] by simp
    with le have a: "?a = 2 ^ 53" by (simp add: pow2_def)
    have "quantum ?a = 2" using True by (simp add: quantum_def pow2_def)
    moreover have "(2 ^ 53 :: rat) / 2 = of_int (2 ^ 52)" by simp
    ultimately show ?thesis using a round_to_exact [of ?a 2 "2 ^ 52"] by simp
  next
    case False
    with e53 have small: "?e - 52 \<le> 0" by simp
    then have qu: "quantum ?a = 1 / 2 ^ nat (52 - ?e)"
      using e0 by (simp add: quantum_def max_def pow2_nonpos)
    have "?a / (1 / 2 ^ nat (52 - ?e)) = of_int (\<bar>i\<bar> * 2 ^ nat (52 - ?e))"
      unfolding a_int by simp
    then show ?thesis unfolding qu by (rule round_to_exact) simp
  qed
  have "?a < pow2 1024" using le by (simp add: pow2_def)
  then show ?thesis
    using False exact by (simp add: round_double_def abs_if split: if_splits)
qed

section \<open>Evaluation on concrete requests\<close>

lemmas py_eval =
  and_then_def dict_get_def py_gt_def py_min_def py_max_def fl_sub_def Let_def lit_values
  score_of_def entries_of_def

lemmas vector_eval =
  normalize_features_def extract_feature_vector_def np_array_def promote_types_def

lemma fallback_score_human_sample: "fallback_score human_sample = Inr (lit (11 / 10))"
  by (simp add: fallback_score_def human_sample_def py_eval fl_eval)

lemma fallback_scoring_human_sample: "fallback_scoring human_sample = Inr (lit (95 / 100))"
  by (simp add: fallback_scoring_def fallback_score_human_sample py_eval)

lemma normalize_human_sample:
  "normalize_features (extract_feature_vector human_sample) =
     Inr (FloatArr
       [Fin (8106479329266893 / 4503599627370496), Fin (1 / 2),
        Fin (7656119366529843 / 9007199254740992),
        Fin (5404319552844595 / 9007199254740992), Fin 500, Fin 15,
        Fin (3602879701896397 / 72057594037927936)])"
  by (simp add: vector_eval human_sample_def py_eval fl_eval)

lemma importance_human_sample:
  "get_feature_importance human_sample c =
     Inr [entry ''avg_reaction_time'' (lit (22 / 100)) True,
          entry ''reaction_time_variance'' (lit (18 / 100)) True,
          entry ''task_accuracy'' (lit (15 / 100)) True,
          entry ''speed_variance'' (lit (14 / 100)) True,
          entry ''cursor_entropy'' (lit (12 / 100)) True,
          entry ''hesitation_time'' (lit (10 / 100)) True]"
  by (simp add: get_feature_importance_def importance_entries_def sort_desc_def abs_weight_def
      entry_def human_sample_def py_eval fl_eval)

text \<open>
  A model whose probability call raises leaves every field of the response as the rule-based
  path computes it, except that \<open>modelUsed\<close> reads \<^verbatim>\<open>ML\<close>.
\<close>

lemma verify_failing_model:
  "verify (Some (\<lambda>X. Inl e)) sid now f =
     map_sum id (\<lambda>r. r\<lparr>modelUsed := ''ML''\<rparr>) (verify None sid now f)"
  by (simp add: verify_def verify_body_def estimate_def and_then_def split: sum.splits)

text \<open>
  C1 (code defect). The claim: \<open>modelUsed\<close> names the strategy that produced the score, and is
  \<^verbatim>\<open>Rule-based\<close> when a loaded model's probability call raises and the fallback scores.
  The code: with a loaded artifact whose probability call raises AttributeError (the
  dictionary that \<^verbatim>\<open>train_model.py\<close> pickles has no \<^verbatim>\<open>predict_proba\<close>), the confidence of the
  human-like sample is the rule-based 0.95 and \<open>modelUsed\<close> is \<^verbatim>\<open>ML\<close>.
\<close>

theorem verify_reports_ML_for_rule_based_score:
  "map_sum id (\<lambda>r. (confidence r, modelUsed r))
     (verify (Some (\<lambda>X. Inl AttributeError)) sid now human_sample)
     = Inr (lit (95 / 100), ''ML'')
   \<and> fallback_scoring human_sample = Inr (lit (95 / 100))"
  by (simp add: verify_def verify_body_def estimate_def normalize_human_sample
      fallback_scoring_human_sample importance_human_sample and_then_def)

text \<open>
  C2, as stated, fails: for the empty mapping the rule-based strategy does not return 0.35,
  neither the float nearest to 0.35 nor the float sum 0.5 - 0.10 - 0.05.
\<close>

theorem fallback_scoring_empty_not_035:
  "fallback_scoring Map.empty \<noteq> Inr (lit (35 / 100)) \<and>
   fallback_scoring Map.empty
     \<noteq> Inr (fl_sub (fl_sub (lit (5 / 10)) (lit (10 / 100))) (lit (5 / 100)))"
  by (simp add: fallback_scoring_def fallback_score_def py_eval fl_eval)

text \<open>
  C2 (amended). For the empty mapping the rule-based strategy returns exactly 0.5: the
  reaction time 0 / 1000 = 0 is below 2, so 0.15 is added to the baseline 0.5; then 0.10 is
  subtracted (variance 0 is not above 100000) and 0.05 (accuracy 0 is not above 0.6). No other
  adjustment applies and the clamp leaves the sum unchanged.
\<close>

theorem fallback_scoring_empty:
  "fallback_score Map.empty =
     Inr (fl_sub (fl_sub (fl_add (lit (5 / 10)) (lit (15 / 100))) (lit (10 / 100)))
            (lit (5 / 100)))
   \<and> fallback_score Map.empty = Inr (Fin (1 / 2))
   \<and> fallback_scoring Map.empty = Inr (Fin (1 / 2))"
  by (simp add: fallback_scoring_def fallback_score_def py_eval fl_eval)

text \<open>
  On a float vector the three checks are independent and divide as the source's comments
  say: slots 0 and 3 by 1000 when slot 0 exceeds 100, slot 1 by 1000000 when it exceeds
  100000, slot 4 by 1000 when it exceeds 1000; slots 2, 5 and 6 are never written.
\<close>

lemma normalize_features_float_vector:
  assumes "length xs = 7"
  shows "normalize_features (FloatArr xs) = Inr (FloatArr
     [if fl_lt (Fin 100) (xs ! 0) then fl_div (xs ! 0) 1000 else xs ! 0,
      if fl_lt (Fin 100000) (xs ! 1) then fl_div (xs ! 1) 1000000 else xs ! 1,
      xs ! 2,
      if fl_lt (Fin 100) (xs ! 0) then fl_div (xs ! 3) 1000 else xs ! 3,
      if fl_lt (Fin 1000) (xs ! 4) then fl_div (xs ! 4) 1000 else xs ! 4,
      xs ! 5,
      xs ! 6])"
proof -
  obtain x0 x1 x2 x3 x4 x5 x6 where xs: "xs = [x0, x1, x2, x3, x4, x5, x6]"
    using assms by (auto simp: length_Suc_conv eval_nat_numeral)
  show ?thesis
    unfolding xs by (simp add: normalize_features_def and_then_def)
qed

text \<open>
  C6 (code defect). The claim: when slot 0 exceeds 100, slots 0 and 3 are divided by 1000.
  The code: a mapping with integer values only gives an integer vector, and the in-place
  division stores the quotient back into an integer slot. The vector of
  \<^verbatim>\<open>{avg_reaction_time: 1800, hesitation_time: 600}\<close> is normalised to slot 0 = 1 and
  slot 3 = 0, not 1.8 and 0.6.
\<close>

theorem normalize_features_truncates_integer_vector:
  "extract_feature_vector
     [''avg_reaction_time'' \<mapsto> PInt 1800, ''hesitation_time'' \<mapsto> PInt 600]
     = IntArr [1800, 0, 0, 600, 0, 0, 0]
   \<and> normalize_features (IntArr [1800, 0, 0, 600, 0, 0, 0])
     = Inr (IntArr [1, 0, 0, 0, 0, 0, 0])
   \<and> py_truediv (PInt 1800) 1000 = Inr (Fin (8106479329266893 / 4503599627370496))
   \<and> py_truediv (PInt 600) 1000 = Inr (Fin (5404319552844595 / 9007199254740992))"
  by (simp add: vector_eval py_eval fl_eval)

text \<open>
  C9. For the human-like sample with no artifact loaded, the sum before the clamp is the
  float 1.1, which exceeds 0.95; the confidence returned is exactly the float 0.95, and
  \<open>modelUsed\<close> is \<^verbatim>\<open>Rule-based\<close>.
\<close>

theorem human_sample_rule_based:
  "fallback_score human_sample = Inr (lit (11 / 10))
   \<and> fl_lt (lit (95 / 100)) (lit (11 / 10))
   \<and> fallback_scoring human_sample = Inr (lit (95 / 100))
   \<and> map_sum id (\<lambda>r. (confidence r, modelUsed r)) (verify None sid now human_sample)
       = Inr (lit (95 / 100), ''Rule-based'')"
  by (simp add: verify_def verify_body_def estimate_def normalize_human_sample
      fallback_score_human_sample fallback_scoring_human_sample importance_human_sample
      and_then_def lit_values)

section \<open>The stable descending sort\<close>

lemma sort_desc_snoc: "sort_desc k (xs @ [x]) = insert_desc k x (sort_desc k xs)"
  by (simp add: sort_desc_def)

lemma sort_desc_Nil [simp]: "sort_desc k [] = []"
  by (simp add: sort_desc_def)

lemma length_insert_desc [simp]: "length (insert_desc k x ys) = Suc (length ys)"
  by (induction ys) simp_all

lemma length_sort_desc [simp]: "length (sort_desc k xs) = length xs"
  by (induction xs rule: rev_induct) (simp_all add: sort_desc_snoc)

lemma set_insert_desc [simp]: "set (insert_desc k x ys) = insert x (set ys)"
  by (induction ys) auto

lemma set_sort_desc [simp]: "set (sort_desc k xs) = set xs"
  by (induction xs rule: rev_induct) (simp_all add: sort_desc_snoc)

lemma descending_insert_desc:
  assumes "\<forall>z \<in> insert x (set ys). k z = Fin (g z)"
    and "descending k ys"
  shows "descending k (insert_desc k x ys)"
  using assms
proof (induction ys)
  case Nil
  then show ?case by (simp add: descending_def)
next
  case (Cons y ys)
  have kx: "k x = Fin (g x)" and ky: "k y = Fin (g y)" using Cons.prems(1) by simp_all
  have kz: "\<And>z. z \<in> set ys \<Longrightarrow> k z = Fin (g z)" using Cons.prems(1) by simp
  have below_y: "\<And>z. z \<in> set ys \<Longrightarrow> g z \<le> g y"
    using Cons.prems(2) kz ky by (fastforce simp: descending_def)
  have tail: "descending k ys" using Cons.prems(2) by (simp add: descending_def)
  show ?case
  proof (cases "fl_lt (k y) (k x)")
    case True
    then have "g y < g x" by (simp add: kx ky)
    then have "\<And>z. z \<in> set (y # ys) \<Longrightarrow> fl_le (k z) (k x)"
      using below_y kz by (fastforce simp: kx ky)
    then show ?thesis using True Cons.prems(2) by (simp add: descending_def)
  next
    case False
    then have "g x \<le> g y" by (simp add: kx ky)
    moreover have "descending k (insert_desc k x ys)"
      using Cons.IH kz kx tail by simp
    ultimately show ?thesis
      using False Cons.prems(2) by (auto simp: descending_def kx ky)
  qed
qed

lemma descending_sort_desc:
  assumes "\<forall>z \<in> set xs. k z = Fin (g z)"
  shows "descending k (sort_desc k xs)"
  using assms
proof (induction xs rule: rev_induct)
  case Nil
  then show ?case by (simp add: descending_def)
next
  case (snoc x xs)
  have "descending k (sort_desc k xs)" using snoc by simp
  then show ?case
    unfolding sort_desc_snoc using snoc.prems by (intro descending_insert_desc [where g = g]) auto
qed

lemma filter_insert_desc:
  assumes "\<forall>z \<in> insert x (set ys). k z = Fin (g z)"
    and "descending k ys"
  shows "filter (\<lambda>z. k z = v) (insert_desc k x ys) =
         (if k x = v then filter (\<lambda>z. k z = v) ys @ [x] else filter (\<lambda>z. k z = v) ys)"
  using assms
proof (induction ys)
  case Nil
  then show ?case by simp
next
  case (Cons y ys)
  have kx: "k x = Fin (g x)" and ky: "k y = Fin (g y)" using Cons.prems(1) by simp_all
  have kz: "\<And>z. z \<in> set ys \<Longrightarrow> k z = Fin (g z)" using Cons.prems(1) by simp
  have below_y: "\<And>z. z \<in> set ys \<Longrightarrow> g z \<le> g y"
    using Cons.prems(2) kz ky by (fastforce simp: descending_def)
  have tail: "descending k ys" using Cons.prems(2) by (simp add: descending_def)
  show ?case
  proof (cases "fl_lt (k y) (k x)")
    case True
    then have less: "g y < g x" by (simp add: kx ky)
    have "k z \<noteq> k x" if "z \<in> set (y # ys)" for z
    proof -
      have "g z \<le> g y" using that below_y by auto
      moreover have "k z = Fin (g z)" using that kz ky by auto
      ultimately show ?thesis using less kx by simp
    qed
    then have "filter (\<lambda>z. k z = k x) (y # ys) = []"
      by (simp only: filter_empty_conv) blast
    then show ?thesis using True by auto
  next
    case False
    have "filter (\<lambda>z. k z = v) (insert_desc k x ys) =
         (if k x = v then filter (\<lambda>z. k z = v) ys @ [x] else filter (\<lambda>z. k z = v) ys)"
      using Cons.IH kz kx tail by simp
    then show ?thesis using False by simp
  qed
qed

lemma sort_desc_stable:
  assumes "\<forall>z \<in> set xs. k z = Fin (g z)"
  shows "filter (\<lambda>z. k z = v) (sort_desc k xs) = filter (\<lambda>z. k z = v) xs"
  using assms
proof (induction xs rule: rev_induct)
  case Nil
  then show ?case by simp
next
  case (snoc x xs)
  have keys: "\<forall>z \<in> insert x (set (sort_desc k xs)). k z = Fin (g z)"
    using snoc.prems by auto
  have "descending k (sort_desc k xs)"
    using snoc.prems by (intro descending_sort_desc [where g = g]) auto
  then have "filter (\<lambda>z. k z = v) (insert_desc k x (sort_desc k xs)) =
      (if k x = v then filter (\<lambda>z. k z = v) (sort_desc k xs) @ [x]
       else filter (\<lambda>z. k z = v) (sort_desc k xs))"
    using keys by (intro filter_insert_desc [where g = g]) auto
  moreover have "filter (\<lambda>z. k z = v) (sort_desc k xs) = filter (\<lambda>z. k z = v) xs"
    using snoc by simp
  ultimately show ?case by (simp add: sort_desc_snoc)
qed

section \<open>The rule-based strategy on numeric mappings\<close>

lemma py_gt_total: "is_number v \<Longrightarrow> \<exists>b. py_gt v c = Inr b"
  by (cases v) (simp_all add: is_number_def py_gt_def)

lemma py_truediv_total:
  assumes "float_sized v" "2 \<le> c"
  shows "\<exists>q. py_truediv v c = Inr q"
proof (cases v)
  case (PInt i)
  have c: "(2::rat) \<le> of_int c" using assms(2) by (metis of_int_le_iff of_int_numeral)
  have "\<bar>i\<bar> < 2 ^ 1024" using assms(1) PInt by simp
  then have "(of_int \<bar>i\<bar> :: rat) < 2 ^ 1024" by (metis of_int_less_iff of_int_numeral of_int_power)
  then have i: "\<bar>of_int i :: rat\<bar> < 2 ^ 1024" by simp
  have "\<bar>of_int i / of_int c :: rat\<bar> = \<bar>of_int i\<bar> / of_int c" using c by simp
  also have "\<dots> \<le> \<bar>of_int i\<bar> / 2" using c by (intro frac_le) simp_all
  also have "\<dots> < pow2 1023" using i by (simp add: pow2_def)
  finally obtain r where "round_double (of_int i / of_int c) = Fin r"
    using round_double_finite by blast
  then show ?thesis using PInt by simp
qed (use assms in simp_all)

lemma clamp_value: "py_max (lit (2 / 10)) (py_min (lit (95 / 100)) s) = Fin (clamped s)"
  by (cases s) (auto simp: py_max_def py_min_def lit_values clamped_def max_def min_def)

lemma clamped_bounds:
  "2 / 10 \<le> clamped s" "clamped s \<le> 95 / 100"
  "3602879701896397 / 18014398509481984 \<le> clamped s"
  "clamped s \<le> 4278419646001971 / 4503599627370496"
  by (cases s; simp add: clamped_def max_def min_def)+

lemma clamp_bounds:
  "\<exists>q. py_max (lit (2 / 10)) (py_min (lit (95 / 100)) s) = Fin q \<and> 2 / 10 \<le> q \<and> q \<le> 95 / 100
       \<and> fl_le (lit (2 / 10)) (Fin q) \<and> fl_le (Fin q) (lit (95 / 100))"
proof (intro exI [of _ "clamped s"] conjI)
  show "py_max (lit (2 / 10)) (py_min (lit (95 / 100)) s) = Fin (clamped s)" by (rule clamp_value)
  show "2 / 10 \<le> clamped s" "clamped s \<le> 95 / 100" by (rule clamped_bounds)+
  show "fl_le (lit (2 / 10)) (Fin (clamped s))"
    using clamped_bounds(3) [of s] by (simp add: lit_values)
  show "fl_le (Fin (clamped s)) (lit (95 / 100))"
    using clamped_bounds(4) [of s] by (simp add: lit_values)
qed

lemma fallback_score_total:
  assumes "scorable f"
  shows "\<exists>s. fallback_score f = Inr s"
proof -
  obtain rt where "py_truediv (dict_get f ''avg_reaction_time'' (PInt 0)) 1000 = Inr rt"
    using assms py_truediv_total [of _ 1000] by (auto simp: scorable_def)
  moreover obtain b1 where "py_gt (dict_get f ''reaction_time_variance'' (PInt 0)) (Fin 100000) = Inr b1"
    using assms py_gt_total by (auto simp: scorable_def)
  moreover obtain b2 where "py_gt (dict_get f ''task_accuracy'' (PInt 0)) (lit (6 / 10)) = Inr b2"
    using assms py_gt_total by (auto simp: scorable_def)
  moreover obtain b3 where "py_gt (dict_get f ''cursor_direction_changes'' (PInt 0)) (Fin 5) = Inr b3"
    using assms py_gt_total by (auto simp: scorable_def)
  moreover obtain b4 where "py_gt (dict_get f ''speed_variance'' (PInt 0)) (lit (1 / 100)) = Inr b4"
    using assms py_gt_total by (auto simp: scorable_def)
  ultimately show ?thesis
    by (simp add: fallback_score_def and_then_def)
qed

text \<open>
  C3 (amended). For every Feature Mapping whose values under the five keys the rule-based
  strategy reads are absent or numbers, where an integer \<^verbatim>\<open>avg_reaction_time\<close> has magnitude
  below \<open>2^1024\<close> (a float may be arbitrarily large), the strategy returns a float that lies
  in the closed interval [0.2, 0.95]: between the floats 0.2 and 0.95, and so between the
  reals 0.2 and 0.95.
\<close>

theorem fallback_scoring_bounded:
  assumes "scorable f"
  shows "\<exists>q. fallback_scoring f = Inr (Fin q) \<and> 2 / 10 \<le> q \<and> q \<le> 95 / 100
           \<and> fl_le (lit (2 / 10)) (Fin q) \<and> fl_le (Fin q) (lit (95 / 100))"
proof -
  obtain s where "fallback_score f = Inr s" using assms fallback_score_total by blast
  then show ?thesis using clamp_bounds [of s] by (simp add: fallback_scoring_def and_then_def)
qed

text \<open>
  C3, as stated, fails: the rule-based strategy is not total over arbitrarily large
  non-negative values. For the JSON integer \<open>10^400\<close> as \<^verbatim>\<open>avg_reaction_time\<close> the division by
  1000 at line 242 raises OverflowError.
\<close>

theorem fallback_scoring_overflow:
  "fallback_scoring [''avg_reaction_time'' \<mapsto> PInt (10 ^ 400)] = Inl OverflowError"
proof -
  have "pow2 1024 \<le> of_int (10 ^ 400) / of_int 1000" by (simp add: pow2_def)
  then have "round_double (of_int (10 ^ 400) / of_int 1000) = PInf" by (rule round_double_overflow)
  then show ?thesis by (simp add: fallback_scoring_def fallback_score_def and_then_def dict_get_def)
qed

text \<open>The bound at the specification's extreme value \<^verbatim>\<open>avg_reaction_time = 1e9\<close>.\<close>

theorem fallback_scoring_bounded_witness:
  "scorable [''avg_reaction_time'' \<mapsto> PFloat (Fin (10 ^ 9))] \<and>
   (\<exists>q. fallback_scoring [''avg_reaction_time'' \<mapsto> PFloat (Fin (10 ^ 9))] = Inr (Fin q)
        \<and> 2 / 10 \<le> q \<and> q \<le> 95 / 100
        \<and> fl_le (lit (2 / 10)) (Fin q) \<and> fl_le (Fin q) (lit (95 / 100)))"
proof -
  have h: "scorable [''avg_reaction_time'' \<mapsto> PFloat (Fin (10 ^ 9))]"
    by (simp add: scorable_def dict_get_def is_number_def)
  show ?thesis using h fallback_scoring_bounded [OF h] by simp
qed

section \<open>The ranking\<close>

lemma importance_entries_total:
  assumes "rankable f"
  shows "\<exists>rt var_hi acc_hi dir_hi speed_hi hes.
    py_gt (dict_get f ''cursor_direction_changes'' (PInt 0)) (Fin 5) = Inr dir_hi \<and>
    importance_entries f = Inr (entries_of rt var_hi acc_hi dir_hi speed_hi hes)"
proof -
  obtain rt where "py_truediv (dict_get f ''avg_reaction_time'' (PInt 0)) 1000 = Inr rt"
    using assms py_truediv_total [of _ 1000] by (auto simp: rankable_def scorable_def)
  moreover obtain hes where "py_truediv (dict_get f ''hesitation_time'' (PInt 0)) 1000 = Inr hes"
    using assms py_truediv_total [of _ 1000] by (auto simp: rankable_def)
  moreover obtain b1 where "py_gt (dict_get f ''reaction_time_variance'' (PInt 0)) (Fin 100000) = Inr b1"
    using assms py_gt_total by (auto simp: rankable_def scorable_def)
  moreover obtain b2 where "py_gt (dict_get f ''task_accuracy'' (PInt 0)) (lit (6 / 10)) = Inr b2"
    using assms py_gt_total by (auto simp: rankable_def scorable_def)
  moreover obtain b3 where "py_gt (dict_get f ''cursor_direction_changes'' (PInt 0)) (Fin 5) = Inr b3"
    using assms py_gt_total by (auto simp: rankable_def scorable_def)
  moreover obtain b4 where "py_gt (dict_get f ''speed_variance'' (PInt 0)) (lit (1 / 100)) = Inr b4"
    using assms py_gt_total by (auto simp: rankable_def scorable_def)
  ultimately have "importance_entries f = Inr (entries_of rt b1 b2 b3 b4 hes)"
    by (simp add: importance_entries_def and_then_def)
  with \<open>py_gt (dict_get f ''cursor_direction_changes'' (PInt 0)) (Fin 5) = Inr b3\<close>
  show ?thesis by blast
qed

lemma entries_of_names:
  "map name (entries_of rt var_hi acc_hi dir_hi speed_hi hes) =
     [''avg_reaction_time'', ''reaction_time_variance'', ''task_accuracy'',
      ''cursor_entropy'', ''speed_variance'', ''hesitation_time'']"
  by (simp add: entries_of_def entry_def)

lemma entries_of_keys:
  "\<forall>e \<in> set (entries_of rt var_hi acc_hi dir_hi speed_hi hes). abs_weight e = Fin (key_of e)"
  by (simp add: entries_of_def entry_def abs_weight_def key_of_def lit_values)

lemma entries_of_positive:
  "\<forall>e \<in> set (entries_of rt var_hi acc_hi dir_hi speed_hi hes).
     positive e = fl_le (Fin 0) (weight e)"
  by (simp add: entries_of_def entry_def lit_values)

lemma entries_of_cursor:
  "\<exists>e \<in> set (entries_of rt var_hi acc_hi dir_hi speed_hi hes).
     name e = ''cursor_entropy'' \<and> positive e \<and>
     weight e = (if dir_hi then lit (12 / 100) else lit (5 / 100))"
  by (simp add: entries_of_def entry_def)

text \<open>
  C7 (amended). For every Feature Mapping whose values under the six keys the Ranker reads
  are absent or numbers, where an integer \<^verbatim>\<open>avg_reaction_time\<close> or \<^verbatim>\<open>hesitation_time\<close> has
  magnitude below \<open>2^1024\<close>, the Ranker returns exactly 6 contributions, one per signal,
  sorted in non-increasing order of absolute weight with ties in encounter order (for each
  absolute weight, the contributions carrying it appear in the order in which they were
  appended); every contribution's positive flag equals (weight \<ge> 0); and the
  \<^verbatim>\<open>cursor_entropy\<close> entry carries weight 0.12 if \<^verbatim>\<open>cursor_direction_changes > 5\<close> and 0.05
  otherwise, positive in both branches.
\<close>

theorem ranking_shape:
  assumes "rankable f"
  shows "\<exists>es rs dir_hi.
     importance_entries f = Inr es \<and> get_feature_importance f c = Inr rs \<and>
     py_gt (dict_get f ''cursor_direction_changes'' (PInt 0)) (Fin 5) = Inr dir_hi \<and>
     length rs = 6 \<and>
     map name es = [''avg_reaction_time'', ''reaction_time_variance'', ''task_accuracy'',
                    ''cursor_entropy'', ''speed_variance'', ''hesitation_time''] \<and>
     descending abs_weight rs \<and>
     (\<forall>w. filter (\<lambda>e. abs_weight e = w) rs = filter (\<lambda>e. abs_weight e = w) es) \<and>
     (\<forall>e \<in> set rs. positive e = fl_le (Fin 0) (weight e)) \<and>
     (\<exists>e \<in> set rs. name e = ''cursor_entropy'' \<and> positive e \<and>
        weight e = (if dir_hi then lit (12 / 100) else lit (5 / 100)))"
proof -
  obtain rt var_hi acc_hi dir_hi speed_hi hes where
    dir: "py_gt (dict_get f ''cursor_direction_changes'' (PInt 0)) (Fin 5) = Inr dir_hi" and
    es: "importance_entries f = Inr (entries_of rt var_hi acc_hi dir_hi speed_hi hes)"
    using importance_entries_total [OF assms] by blast
  let ?es = "entries_of rt var_hi acc_hi dir_hi speed_hi hes"
  let ?rs = "sort_desc abs_weight ?es"
  have rs: "get_feature_importance f c = Inr ?rs"
    by (simp add: get_feature_importance_def es and_then_def)
  have len: "length ?rs = 6"
    by (simp add: entries_of_def)
  have keys: "\<forall>e \<in> set ?es. abs_weight e = Fin (key_of e)" by (rule entries_of_keys)
  have sorted: "descending abs_weight ?rs" using keys by (rule descending_sort_desc)
  have stable: "\<forall>w. filter (\<lambda>e. abs_weight e = w) ?rs = filter (\<lambda>e. abs_weight e = w) ?es"
    using sort_desc_stable [OF keys] by simp
  have pos: "\<forall>e \<in> set ?rs. positive e = fl_le (Fin 0) (weight e)"
    using entries_of_positive [of rt var_hi acc_hi dir_hi speed_hi hes] by simp
  have cur: "\<exists>e \<in> set ?rs. name e = ''cursor_entropy'' \<and> positive e \<and>
        weight e = (if dir_hi then lit (12 / 100) else lit (5 / 100))"
    using entries_of_cursor [of rt var_hi acc_hi dir_hi speed_hi hes] by simp
  show ?thesis
  proof (rule exI [of _ ?es], rule exI [of _ ?rs], rule exI [of _ dir_hi], intro conjI)
    show "map name ?es = [''avg_reaction_time'', ''reaction_time_variance'', ''task_accuracy'',
                    ''cursor_entropy'', ''speed_variance'', ''hesitation_time'']"
      by (rule entries_of_names)
  qed (fact es rs dir len sorted stable pos cur)+
qed

text \<open>
  C7, as stated, fails: the Ranker does not return a list for every Feature Mapping. For
  the JSON integer \<open>10^400\<close> as \<^verbatim>\<open>hesitation_time\<close> the division by 1000 at line 150 raises
  OverflowError.
\<close>

theorem ranking_overflow:
  "get_feature_importance [''hesitation_time'' \<mapsto> PInt (10 ^ 400)] (lit (5 / 10))
     = Inl OverflowError"
proof -
  have "pow2 1024 \<le> of_int (10 ^ 400) / of_int 1000" by (simp add: pow2_def)
  then have "round_double (of_int (10 ^ 400) / of_int 1000) = PInf" by (rule round_double_overflow)
  then show ?thesis
    by (simp add: get_feature_importance_def importance_entries_def and_then_def dict_get_def
        py_gt_def lit_values round_double_def)
qed

text \<open>The ranking of the human-like sample; its fifth entry is \<^verbatim>\<open>cursor_entropy\<close>.\<close>

theorem ranking_shape_witness:
  "rankable human_sample \<and>
   get_feature_importance human_sample (lit (95 / 100)) = Inr human_ranking \<and>
   length human_ranking = 6 \<and>
   descending abs_weight human_ranking \<and>
   positive (human_ranking ! 4) = fl_le (Fin 0) (weight (human_ranking ! 4)) \<and>
   name (human_ranking ! 4) = ''cursor_entropy'' \<and>
   weight (human_ranking ! 4) = lit (12 / 100)"
proof -
  have h: "rankable human_sample"
    by (simp add: rankable_def scorable_def human_sample_def dict_get_def is_number_def)
  obtain es rs dir_hi where
    rs: "get_feature_importance human_sample (lit (95 / 100)) = Inr rs" and
    len: "length rs = 6" and desc: "descending abs_weight rs" and
    pos: "\<forall>e \<in> set rs. positive e = fl_le (Fin 0) (weight e)"
    using ranking_shape [OF h, of "lit (95 / 100)"] by blast
  have eq: "rs = human_ranking"
    using rs by (simp add: importance_human_sample human_ranking_def)
  have "human_ranking ! 4 \<in> set rs" unfolding eq by (simp add: human_ranking_def)
  then have "positive (human_ranking ! 4) = fl_le (Fin 0) (weight (human_ranking ! 4))"
    using pos by blast
  moreover have "name (human_ranking ! 4) = ''cursor_entropy''"
    "weight (human_ranking ! 4) = lit (12 / 100)"
    by (simp_all add: human_ranking_def entry_def)
  ultimately show ?thesis using h rs len desc eq by simp
qed

section \<open>The Normalizer below its thresholds\<close>

lemma fl_le_not_lt: "fl_le x (Fin c) \<Longrightarrow> \<not> fl_lt (Fin c) x"
  by (cases x) simp_all

lemma nd_gt_slot_le:
  assumes "slot_le X i c"
  shows "nd_gt X i c = Inr False"
proof (cases X)
  case (ObjArr vs)
  then show ?thesis
    using assms by (cases "vs ! i") (auto simp: slot_le_def py_gt_def fl_le_not_lt split: if_splits)
qed (use assms in \<open>auto simp: slot_le_def fl_le_not_lt split: if_splits\<close>)

lemma nd_itruediv_other:
  assumes "nd_itruediv X i c = Inr Y" "j \<noteq> i"
  shows "nd_num Y j = nd_num X j"
proof (cases X)
  case (ObjArr vs)
  then show ?thesis
    using assms by (auto simp: and_then_def split: if_splits sum.splits)
qed (use assms in \<open>auto split: if_splits\<close>)

lemma slot_le_cong: "nd_num Y j = nd_num X j \<Longrightarrow> slot_le Y j c = slot_le X j c"
  by (simp add: slot_le_def)

lemma normalize_features_steps:
  assumes "normalize_features X = Inr Y"
  obtains ms X1 bv X2 lp where
    "nd_gt X 0 100 = Inr ms"
    "if ms then \<exists>Z. nd_itruediv X 0 1000 = Inr Z \<and> nd_itruediv Z 3 1000 = Inr X1 else X1 = X"
    "nd_gt X1 1 100000 = Inr bv"
    "if bv then nd_itruediv X1 1 1000000 = Inr X2 else X2 = X1"
    "nd_gt X2 4 1000 = Inr lp"
    "if lp then nd_itruediv X2 4 1000 = Inr Y else Y = X2"
proof -
  obtain ms where ms: "nd_gt X 0 100 = Inr ms"
    using assms by (cases "nd_gt X 0 100") (simp_all add: normalize_features_def and_then_def)
  define R1 where "R1 = (if ms then and_then (nd_itruediv X 0 1000) (\<lambda>Y. nd_itruediv Y 3 1000)
               else Inr X)"
  obtain X1 where X1: "R1 = Inr X1"
    using assms ms by (cases R1) (simp_all add: normalize_features_def and_then_def R1_def)
  obtain bv where bv: "nd_gt X1 1 100000 = Inr bv"
    using assms ms X1 by (cases "nd_gt X1 1 100000")
      (simp_all add: normalize_features_def and_then_def R1_def)
  define R2 where "R2 = (if bv then nd_itruediv X1 1 1000000 else Inr X1)"
  obtain X2 where X2: "R2 = Inr X2"
    using assms ms X1 bv by (cases R2)
      (simp_all add: normalize_features_def and_then_def R1_def R2_def)
  obtain lp where lp: "nd_gt X2 4 1000 = Inr lp"
    using assms ms X1 bv X2 by (cases "nd_gt X2 4 1000")
      (simp_all add: normalize_features_def and_then_def R1_def R2_def)
  have last: "(if lp then nd_itruediv X2 4 1000 else Inr X2) = Inr Y"
    using assms ms X1 bv X2 lp
    by (simp add: normalize_features_def and_then_def R1_def R2_def)
  have s1: "if ms then \<exists>Z. nd_itruediv X 0 1000 = Inr Z \<and> nd_itruediv Z 3 1000 = Inr X1 else X1 = X"
    using X1 unfolding R1_def by (auto simp: and_then_def split: sum.splits if_splits)
  have s2: "if bv then nd_itruediv X1 1 1000000 = Inr X2 else X2 = X1"
    using X2 unfolding R2_def by (auto split: if_splits)
  have s3: "if lp then nd_itruediv X2 4 1000 = Inr Y else Y = X2"
    using last by (auto split: if_splits)
  show thesis using that ms s1 bv s2 lp s3 by blast
qed

lemma normalize_features_keeps_slot:
  assumes "normalize_features X = Inr Y"
  shows "slot_le X 0 100 \<Longrightarrow> nd_num Y 0 = nd_num X 0 \<and> nd_num Y 3 = nd_num X 3"
    and "slot_le X 1 100000 \<Longrightarrow> nd_num Y 1 = nd_num X 1"
    and "slot_le X 4 1000 \<Longrightarrow> nd_num Y 4 = nd_num X 4"
    and "nd_num Y 2 = nd_num X 2 \<and> nd_num Y 5 = nd_num X 5 \<and> nd_num Y 6 = nd_num X 6"
proof -
  from assms obtain ms X1 bv X2 lp where
    ms: "nd_gt X 0 100 = Inr ms" and
    s1: "if ms then \<exists>Z. nd_itruediv X 0 1000 = Inr Z \<and> nd_itruediv Z 3 1000 = Inr X1 else X1 = X" and
    bv: "nd_gt X1 1 100000 = Inr bv" and
    s2: "if bv then nd_itruediv X1 1 1000000 = Inr X2 else X2 = X1" and
    lp: "nd_gt X2 4 1000 = Inr lp" and
    s3: "if lp then nd_itruediv X2 4 1000 = Inr Y else Y = X2"
    by (rule normalize_features_steps)
  have x1: "nd_num X1 j = nd_num X j" if "j \<noteq> 0" "j \<noteq> 3" for j
    using s1 that by (auto split: if_splits simp: nd_itruediv_other)
  have x2: "nd_num X2 j = nd_num X1 j" if "j \<noteq> 1" for j
    using s2 that by (auto split: if_splits simp: nd_itruediv_other)
  have y: "nd_num Y j = nd_num X2 j" if "j \<noteq> 4" for j
    using s3 that by (auto split: if_splits simp: nd_itruediv_other)
  show "nd_num Y 2 = nd_num X 2 \<and> nd_num Y 5 = nd_num X 5 \<and> nd_num Y 6 = nd_num X 6"
    by (simp add: x1 x2 y)
  {
    assume "slot_le X 0 100"
    then have "ms = False" using ms by (simp add: nd_gt_slot_le)
    then have "X1 = X" using s1 by simp
    then show "nd_num Y 0 = nd_num X 0 \<and> nd_num Y 3 = nd_num X 3" by (simp add: x2 y)
  }
  {
    assume "slot_le X 1 100000"
    then have "slot_le X1 1 100000" using x1 [of 1] by (simp add: slot_le_def)
    then have "bv = False" using bv by (simp add: nd_gt_slot_le)
    then have "X2 = X1" using s2 by simp
    then show "nd_num Y 1 = nd_num X 1" by (simp add: x1 y)
  }
  {
    assume "slot_le X 4 1000"
    then have "slot_le X2 4 1000" using x1 [of 4] x2 [of 4] by (simp add: slot_le_def)
    then have "lp = False" using lp by (simp add: nd_gt_slot_le)
    then have "Y = X2" using s3 by simp
    then show "nd_num Y 4 = nd_num X 4" by (simp add: x1 x2)
  }
qed

lemma normalize_features_unchanged:
  assumes "slot_le X 0 100" "slot_le X 1 100000" "slot_le X 4 1000"
  shows "normalize_features X = Inr X"
  using assms by (simp add: normalize_features_def and_then_def nd_gt_slot_le)

text \<open>
  C5. The Normalizer returns its input vector unchanged whenever slot 0 \<le> 100,
  slot 1 \<le> 100000 and slot 4 \<le> 1000, whatever the element type of the vector. Every
  comparison is a strict greater-than, so a slot exactly at its threshold is not rescaled
  in that slot, whatever happens to the other slots: with slot 0 \<le> 100 slots 0 and 3
  keep their values, with slot 1 \<le> 100000 slot 1 does, with slot 4 \<le> 1000 slot 4 does.
\<close>

theorem normalize_features_below_thresholds:
  "(slot_le X 0 100 \<longrightarrow> slot_le X 1 100000 \<longrightarrow> slot_le X 4 1000 \<longrightarrow>
      normalize_features X = Inr X) \<and>
   (normalize_features X = Inr Y \<longrightarrow>
      (slot_le X 0 100 \<longrightarrow> nd_num Y 0 = nd_num X 0 \<and> nd_num Y 3 = nd_num X 3) \<and>
      (slot_le X 1 100000 \<longrightarrow> nd_num Y 1 = nd_num X 1) \<and>
      (slot_le X 4 1000 \<longrightarrow> nd_num Y 4 = nd_num X 4))"
  using normalize_features_unchanged [of X] normalize_features_keeps_slot(1-3) [of X Y]
  by blast

text \<open>
  A vector with slots 0, 1 and 4 exactly at their thresholds is returned unchanged; a vector
  with slot 0 at its threshold and slots 1 and 4 above theirs keeps slots 0 and 3.
\<close>

theorem normalize_features_at_thresholds:
  "slot_le (FloatArr [Fin 100, Fin 100000, lit (85 / 100), Fin 600, Fin 1000, Fin 15, lit (5 / 100)]) 0 100
   \<and> slot_le (FloatArr [Fin 100, Fin 100000, lit (85 / 100), Fin 600, Fin 1000, Fin 15, lit (5 / 100)]) 1 100000
   \<and> slot_le (FloatArr [Fin 100, Fin 100000, lit (85 / 100), Fin 600, Fin 1000, Fin 15, lit (5 / 100)]) 4 1000
   \<and> normalize_features (FloatArr [Fin 100, Fin 100000, lit (85 / 100), Fin 600, Fin 1000, Fin 15, lit (5 / 100)])
      = Inr (FloatArr [Fin 100, Fin 100000, lit (85 / 100), Fin 600, Fin 1000, Fin 15, lit (5 / 100)])
   \<and> slot_le (FloatArr [Fin 100, Fin 500000, lit (85 / 100), Fin 600, Fin 2000, Fin 15, lit (5 / 100)]) 0 100
   \<and> normalize_features (FloatArr [Fin 100, Fin 500000, lit (85 / 100), Fin 600, Fin 2000, Fin 15, lit (5 / 100)])
      = Inr (FloatArr [Fin 100, Fin (1 / 2), lit (85 / 100), Fin 600, Fin 2, Fin 15, lit (5 / 100)])
   \<and> nd_num (FloatArr [Fin 100, Fin (1 / 2), lit (85 / 100), Fin 600, Fin 2, Fin 15, lit (5 / 100)]) 0
      = Some (Fin 100)
   \<and> nd_num (FloatArr [Fin 100, Fin (1 / 2), lit (85 / 100), Fin 600, Fin 2, Fin 15, lit (5 / 100)]) 3
      = Some (Fin 600)"
proof -
  let ?A = "FloatArr [Fin 100, Fin 100000, lit (85 / 100), Fin 600, Fin 1000, Fin 15, lit (5 / 100)]"
  let ?B = "FloatArr [Fin 100, Fin 500000, lit (85 / 100), Fin 600, Fin 2000, Fin 15, lit (5 / 100)]"
  let ?C = "FloatArr [Fin 100, Fin (1 / 2), lit (85 / 100), Fin 600, Fin 2, Fin 15, lit (5 / 100)]"
  have a: "slot_le ?A 0 100" "slot_le ?A 1 100000" "slot_le ?A 4 1000"
    by (simp_all add: slot_le_def)
  have b: "slot_le ?B 0 100" by (simp add: slot_le_def)
  have run: "normalize_features ?B = Inr ?C"
    by (simp add: normalize_features_def and_then_def fl_eval)
  have "normalize_features ?A = Inr ?A"
    using a normalize_features_below_thresholds [of ?A ?A] by blast
  moreover have "nd_num ?C 0 = nd_num ?B 0 \<and> nd_num ?C 3 = nd_num ?B 3"
    using b run normalize_features_below_thresholds [of ?B ?C] by blast
  ultimately show ?thesis using a b run by simp
qed

section \<open>The ranking inside a response\<close>

lemma verify_Inr_importance:
  assumes "verify m s t f = Inr r"
  shows "get_feature_importance f c = Inr (featureImportance r)"
proof -
  obtain X where "normalize_features (extract_feature_vector f) = Inr X"
    using assms by (auto simp: verify_def verify_body_def and_then_def split: sum.splits)
  moreover obtain c' where "estimate m X f = Inr c'"
    using assms calculation by (auto simp: verify_def verify_body_def and_then_def split: sum.splits)
  moreover obtain fi where "get_feature_importance f c' = Inr fi"
    using assms calculation by (auto simp: verify_def verify_body_def and_then_def split: sum.splits)
  ultimately have "featureImportance r = fi"
    using assms by (auto simp: verify_def verify_body_def and_then_def)
  with \<open>get_feature_importance f c' = Inr fi\<close> show ?thesis
    by (simp add: get_feature_importance_def)
qed

text \<open>
  C8. The Ranker's output is a function of the raw Feature Mapping alone: the confidence
  argument does not change it, and any two responses to the same mapping carry the same
  ranked contributions, whichever artifacts were loaded and whichever strategy scored; the
  ranking in a response is the Ranker's value on the mapping.
\<close>

theorem ranking_independent_of_strategy:
  "get_feature_importance f c1 = get_feature_importance f c2 \<and>
   (verify m1 s1 t1 f = Inr r1 \<longrightarrow> verify m2 s2 t2 f = Inr r2 \<longrightarrow>
      featureImportance r1 = featureImportance r2 \<and>
      get_feature_importance f c = Inr (featureImportance r1))"
proof (intro conjI impI)
  show "get_feature_importance f c1 = get_feature_importance f c2"
    by (simp add: get_feature_importance_def)
next
  assume a: "verify m1 s1 t1 f = Inr r1" and b: "verify m2 s2 t2 f = Inr r2"
  show "featureImportance r1 = featureImportance r2"
    using verify_Inr_importance [OF a, of c] verify_Inr_importance [OF b, of c] by simp
  show "get_feature_importance f c = Inr (featureImportance r1)"
    using a by (rule verify_Inr_importance)
qed

text \<open>
  Two runs on the human-like sample, one scored by the rules and one by a model that
  answers 0.5, carry the same ranking.
\<close>

theorem ranking_independent_of_strategy_witness:
  "verify None (PStr ''s1'') ''t1'' human_sample = Inr rule_based_response \<and>
   verify (Some (\<lambda>X. Inr (lit (5 / 10)))) (PStr ''s2'') ''t2'' human_sample = Inr model_response \<and>
   get_feature_importance human_sample (lit (95 / 100))
     = get_feature_importance human_sample (lit (5 / 10)) \<and>
   featureImportance rule_based_response = featureImportance model_response \<and>
   get_feature_importance human_sample NaN = Inr (featureImportance rule_based_response)"
proof -
  have a: "verify None (PStr ''s1'') ''t1'' human_sample = Inr rule_based_response"
    by (simp add: verify_def verify_body_def estimate_def normalize_human_sample
        fallback_scoring_human_sample importance_human_sample and_then_def
        rule_based_response_def human_ranking_def)
  have b: "verify (Some (\<lambda>X. Inr (lit (5 / 10)))) (PStr ''s2'') ''t2'' human_sample
      = Inr model_response"
    by (simp add: verify_def verify_body_def estimate_def normalize_human_sample
        importance_human_sample and_then_def model_response_def human_ranking_def)
  show ?thesis
    using a b
      ranking_independent_of_strategy [where f = human_sample and ?c1.0 = "lit (95 / 100)"
        and ?c2.0 = "lit (5 / 10)" and ?m1.0 = None and ?s1.0 = "PStr ''s1''" and ?t1.0 = "''t1''"
        and ?r1.0 = rule_based_response and ?m2.0 = "Some (\<lambda>X. Inr (lit (5 / 10)))"
        and ?s2.0 = "PStr ''s2''" and ?t2.0 = "''t2''" and ?r2.0 = model_response and c = NaN]
    by blast
qed

section \<open>The Builder\<close>

lemma scalar_dtype_exact:
  "exact_in_float v \<Longrightarrow> scalar_dtype v = (if is_int v then Int64 else Float64)"
  by (cases v) auto

lemma foldl_promote_numeric:
  assumes "d = Int64 \<or> d = Float64" "\<forall>v \<in> set vs. exact_in_float v"
  shows "foldl promote_types d (map scalar_dtype vs) =
         (if d = Int64 \<and> (\<forall>v \<in> set vs. is_int v) then Int64 else Float64)"
  using assms
proof (induction vs arbitrary: d)
  case Nil
  then show ?case by auto
next
  case (Cons v vs)
  have sd: "scalar_dtype v = (if is_int v then Int64 else Float64)"
    using Cons.prems(2) by (simp add: scalar_dtype_exact)
  have next_d: "promote_types d (scalar_dtype v) =
      (if d = Int64 \<and> is_int v then Int64 else Float64)"
    using Cons.prems(1) sd by (auto simp: promote_types_def)
  have "foldl promote_types (promote_types d (scalar_dtype v)) (map scalar_dtype vs) =
      (if promote_types d (scalar_dtype v) = Int64 \<and> (\<forall>v \<in> set vs. is_int v)
       then Int64 else Float64)"
    using Cons.prems(2) next_d by (intro Cons.IH) auto
  then show ?case using next_d by auto
qed

lemma result_dtype_exact:
  assumes "\<forall>v \<in> set vs. exact_in_float v"
  shows "result_dtype vs = (if vs \<noteq> [] \<and> (\<forall>v \<in> set vs. is_int v) then Int64 else Float64)"
proof (cases vs)
  case Nil
  then show ?thesis by simp
next
  case (Cons v vs')
  have "scalar_dtype v = (if is_int v then Int64 else Float64)"
    using assms Cons by (simp add: scalar_dtype_exact)
  moreover have "foldl promote_types (scalar_dtype v) (map scalar_dtype vs') =
     (if scalar_dtype v = Int64 \<and> (\<forall>v \<in> set vs'. is_int v) then Int64 else Float64)"
    using assms Cons calculation by (intro foldl_promote_numeric) auto
  ultimately show ?thesis using Cons by auto
qed

lemma to_double_exact: "exact_in_float v \<Longrightarrow> Some (to_double v) = num_val v"
  by (cases v) (simp_all add: round_double_of_int_exact)

lemma to_int_exact: "is_int v \<Longrightarrow> Some (Fin (of_int (to_int v))) = num_val v"
  by (cases v) simp_all

lemma np_array_exact:
  assumes "\<forall>v \<in> set vs. exact_in_float v"
  shows "nd_len (np_array vs) = length vs"
    and "i < length vs \<Longrightarrow> nd_num (np_array vs) i = num_val (vs ! i)"
proof -
  show "nd_len (np_array vs) = length vs"
    by (simp add: np_array_def result_dtype_exact [OF assms])
  assume i: "i < length vs"
  then have ex: "exact_in_float (vs ! i)" using assms by simp
  show "nd_num (np_array vs) i = num_val (vs ! i)"
  proof (cases "vs \<noteq> [] \<and> (\<forall>v \<in> set vs. is_int v)")
    case True
    then have "is_int (vs ! i)" using i by simp
    then show ?thesis
      using True i by (simp add: np_array_def result_dtype_exact [OF assms] to_int_exact)
  next
    case False
    then have "result_dtype vs = Float64" by (simp add: result_dtype_exact [OF assms])
    then show ?thesis using i to_double_exact [OF ex] by (simp add: np_array_def)
  qed
qed

lemma extract_feature_vector_map:
  "extract_feature_vector f = np_array (map (\<lambda>k. dict_get f k (PInt 0)) feature_names)"
  by (simp add: extract_feature_vector_def feature_names_def)

text \<open>
  C4 (amended). For every Feature Mapping whose present values are floats or integers of
  magnitude at most \<open>2^53\<close>, the Builder returns a vector of exactly 7 elements in the
  canonical order; every slot whose key is absent equals 0, and every slot whose key is
  present equals the mapping's value.
\<close>

theorem extract_feature_vector_slots:
  assumes "\<forall>k \<in> set feature_names. \<forall>v. f k = Some v \<longrightarrow> exact_in_float v"
  shows "nd_len (extract_feature_vector f) = 7 \<and>
         (\<forall>i < 7.
            (f (feature_names ! i) = None \<longrightarrow>
               nd_num (extract_feature_vector f) i = Some (Fin 0)) \<and>
            (\<forall>v. f (feature_names ! i) = Some v \<longrightarrow>
               nd_num (extract_feature_vector f) i = num_val v))"
proof -
  let ?vs = "map (\<lambda>k. dict_get f k (PInt 0)) feature_names"
  have len: "length ?vs = 7" by (simp add: feature_names_def)
  have ex: "\<forall>v \<in> set ?vs. exact_in_float v"
  proof
    fix v assume "v \<in> set ?vs"
    then obtain k where k: "k \<in> set feature_names" "v = dict_get f k (PInt 0)" by auto
    show "exact_in_float v"
      using assms k by (cases "f k") (auto simp: dict_get_def)
  qed
  have slot: "nd_num (extract_feature_vector f) i = num_val (dict_get f (feature_names ! i) (PInt 0))"
    if "i < 7" for i
  proof -
    have "i < length ?vs" using that len by simp
    then have "nd_num (np_array ?vs) i = num_val (?vs ! i)" using ex by (rule np_array_exact(2)[rotated])
    moreover have "i < length feature_names" using that by (simp add: feature_names_def)
    then have "?vs ! i = dict_get f (feature_names ! i) (PInt 0)" by (rule nth_map)
    ultimately show ?thesis by (simp add: extract_feature_vector_map)
  qed
  have "nd_len (extract_feature_vector f) = 7"
    using np_array_exact(1) [OF ex] len by (simp add: extract_feature_vector_map)
  moreover have "\<forall>i < 7.
            (f (feature_names ! i) = None \<longrightarrow>
               nd_num (extract_feature_vector f) i = Some (Fin 0)) \<and>
            (\<forall>v. f (feature_names ! i) = Some v \<longrightarrow>
               nd_num (extract_feature_vector f) i = num_val v)"
    using slot by (auto simp: dict_get_def)
  ultimately show ?thesis by simp
qed

text \<open>
  C4, as stated, fails: a present value does not always pass through unchanged. The array
  has one element type, so beside a float the integer \<open>2^53 + 1\<close> is stored as the float
  \<open>2^53\<close>.
\<close>

theorem extract_feature_vector_rounds_large_integer:
  "extract_feature_vector
     [''avg_reaction_time'' \<mapsto> PInt (2 ^ 53 + 1), ''task_accuracy'' \<mapsto> PFloat (lit (5 / 10))]
     = FloatArr [Fin (2 ^ 53), Fin 0, Fin (1 / 2), Fin 0, Fin 0, Fin 0, Fin 0]
   \<and> nd_num (extract_feature_vector
        [''avg_reaction_time'' \<mapsto> PInt (2 ^ 53 + 1), ''task_accuracy'' \<mapsto> PFloat (lit (5 / 10))]) 0
      \<noteq> num_val (PInt (2 ^ 53 + 1))"
  by (simp add: vector_eval py_eval fl_eval)

text \<open>The vector of a mapping with two keys present and five absent.\<close>

theorem extract_feature_vector_slots_witness:
  "exact_in_float (PInt 1800) \<and> exact_in_float (PFloat (lit (85 / 100))) \<and>
   nd_len (extract_feature_vector
     [''avg_reaction_time'' \<mapsto> PInt 1800, ''task_accuracy'' \<mapsto> PFloat (lit (85 / 100))]) = 7 \<and>
   map (nd_num (extract_feature_vector
     [''avg_reaction_time'' \<mapsto> PInt 1800, ''task_accuracy'' \<mapsto> PFloat (lit (85 / 100))]))
     [0, 1, 2, 3, 4, 5, 6]
   = [Some (Fin 1800), Some (Fin 0), Some (lit (85 / 100)), Some (Fin 0), Some (Fin 0),
      Some (Fin 0), Some (Fin 0)]"
proof -
  let ?f = "[''avg_reaction_time'' \<mapsto> PInt 1800, ''task_accuracy'' \<mapsto> PFloat (lit (85 / 100))]"
  have h: "\<forall>k \<in> set feature_names. \<forall>v. ?f k = Some v \<longrightarrow> exact_in_float v"
    by (simp add: feature_names_def)
  note t = extract_feature_vector_slots [OF h]
  have slots: "\<And>i. i < 7 \<Longrightarrow>
      (?f (feature_names ! i) = None \<longrightarrow> nd_num (extract_feature_vector ?f) i = Some (Fin 0)) \<and>
      (\<forall>v. ?f (feature_names ! i) = Some v \<longrightarrow> nd_num (extract_feature_vector ?f) i = num_val v)"
    using t by blast
  have "nd_num (extract_feature_vector ?f) 0 = Some (Fin 1800)"
    using slots [of 0] by (simp add: feature_names_def)
  moreover have "nd_num (extract_feature_vector ?f) 1 = Some (Fin 0)"
    using slots [of 1] by (simp add: feature_names_def)
  moreover have "nd_num (extract_feature_vector ?f) 2 = Some (lit (85 / 100))"
    using slots [of 2] by (simp add: feature_names_def)
  moreover have "nd_num (extract_feature_vector ?f) 3 = Some (Fin 0)"
    using slots [of 3] by (simp add: feature_names_def)
  moreover have "nd_num (extract_feature_vector ?f) 4 = Some (Fin 0)"
    using slots [of 4] by (simp add: feature_names_def)
  moreover have "nd_num (extract_feature_vector ?f) 5 = Some (Fin 0)"
    using slots [of 5] by (simp add: feature_names_def)
  moreover have "nd_num (extract_feature_vector ?f) 6 = Some (Fin 0)"
    using slots [of 6] by (simp add: feature_names_def)
  moreover have "nd_len (extract_feature_vector ?f) = 7" using t by blast
  ultimately show ?thesis by simp
qed

section \<open>The pipeline on numeric mappings\<close>

lemma float_sized_number: "float_sized v \<Longrightarrow> is_number v"
  by (cases v) (simp_all add: is_number_def)

lemma float_sized_not_unicode: "float_sized v \<Longrightarrow> scalar_dtype v \<noteq> Unicode"
  by (cases v) simp_all

lemma foldl_promote_not_unicode:
  assumes "d \<noteq> Unicode" "\<forall>v \<in> set vs. scalar_dtype v \<noteq> Unicode"
  shows "foldl promote_types d (map scalar_dtype vs) \<noteq> Unicode"
  using assms
proof (induction vs arbitrary: d)
  case Nil
  then show ?case by simp
next
  case (Cons v vs)
  have "promote_types d (scalar_dtype v) \<noteq> Unicode"
    using Cons.prems by (auto simp: promote_types_def)
  then show ?case using Cons by simp
qed

lemma result_dtype_not_unicode:
  assumes "\<forall>v \<in> set vs. float_sized v"
  shows "result_dtype vs \<noteq> Unicode"
proof (cases vs)
  case Nil
  then show ?thesis by simp
next
  case (Cons v vs')
  then show ?thesis
    using assms foldl_promote_not_unicode [of "scalar_dtype v" vs']
    by (simp add: float_sized_not_unicode)
qed

lemma np_array_wf:
  assumes "length vs = 7" "\<forall>v \<in> set vs. float_sized v"
  shows "wf_arr (np_array vs)"
  using assms result_dtype_not_unicode [OF assms(2)]
  by (cases "result_dtype vs") (simp_all add: np_array_def)

lemma np_array_zero:
  assumes "\<forall>v \<in> set vs. float_sized v" "i < length vs" "vs ! i = PInt 0"
  shows "nd_num (np_array vs) i = Some (Fin 0)"
  using assms result_dtype_not_unicode [OF assms(1)]
  by (cases "result_dtype vs") (simp_all add: np_array_def round_double_def)

lemma nd_gt_total:
  assumes "wf_arr X" "i < 7"
  shows "\<exists>b. nd_gt X i c = Inr b"
proof (cases X)
  case (ObjArr vs)
  then have "is_number (vs ! i)" using assms by (simp add: float_sized_number)
  then show ?thesis using ObjArr assms py_gt_total by simp
qed (use assms in auto)

lemma nd_itruediv_total:
  assumes "wf_arr X" "i < 7" "2 \<le> c"
  shows "\<exists>Y. nd_itruediv X i c = Inr Y \<and> wf_arr Y"
proof (cases X)
  case (ObjArr vs)
  then have "float_sized (vs ! i)" using assms by simp
  then obtain q where q: "py_truediv (vs ! i) c = Inr q"
    using py_truediv_total assms(3) by blast
  have "\<forall>v \<in> set (vs[i := PFloat q]). float_sized v"
    using ObjArr assms(1) by (auto dest!: set_update_subset_insert [THEN subsetD])
  then show ?thesis using ObjArr assms q by (simp add: and_then_def)
qed (use assms in auto)

lemma normalize_features_total:
  assumes "wf_arr X"
  shows "\<exists>Y. normalize_features X = Inr Y"
proof -
  obtain b0 where b0: "nd_gt X 0 100 = Inr b0" using nd_gt_total [OF assms, of 0] by auto
  obtain X1 where X1:
    "(if b0 then and_then (nd_itruediv X 0 1000) (\<lambda>Y. nd_itruediv Y 3 1000) else Inr X) = Inr X1"
    "wf_arr X1"
  proof (cases b0)
    case True
    obtain Y where Y: "nd_itruediv X 0 1000 = Inr Y" "wf_arr Y"
      using nd_itruediv_total [OF assms, of 0 1000] by auto
    obtain Z where "nd_itruediv Y 3 1000 = Inr Z" "wf_arr Z"
      using nd_itruediv_total [OF Y(2), of 3 1000] by auto
    then show ?thesis using that True Y by (simp add: and_then_def)
  next
    case False
    then show ?thesis using that assms by simp
  qed
  obtain b1 where b1: "nd_gt X1 1 100000 = Inr b1" using nd_gt_total [OF X1(2), of 1] by auto
  obtain X2 where X2: "(if b1 then nd_itruediv X1 1 1000000 else Inr X1) = Inr X2" "wf_arr X2"
    using nd_itruediv_total [OF X1(2), of 1 1000000] X1(2) by (cases b1) auto
  obtain b4 where b4: "nd_gt X2 4 1000 = Inr b4" using nd_gt_total [OF X2(2), of 4] by auto
  obtain X3 where X3: "(if b4 then nd_itruediv X2 4 1000 else Inr X2) = Inr X3"
    using nd_itruediv_total [OF X2(2), of 4 1000] by (cases b4) auto
  show ?thesis
    using b0 X1(1) b1 X2(1) b4 X3 by (simp add: normalize_features_def and_then_def)
qed

lemma well_typed_rankable: "well_typed f \<Longrightarrow> rankable f"
  by (simp add: well_typed_def rankable_def scorable_def feature_names_def float_sized_number)

lemma estimate_total:
  assumes "scorable f"
  shows "\<exists>c. estimate m X f = Inr c"
proof -
  obtain s where "fallback_score f = Inr s" using fallback_score_total [OF assms] by blast
  then have "\<exists>c. fallback_scoring f = Inr c" by (simp add: fallback_scoring_def and_then_def)
  then show ?thesis by (auto simp: estimate_def split: option.splits sum.splits)
qed

text \<open>
  C10 (amended). For every Feature Mapping in which feature values are missing and every
  present value is a number (a float, or an integer of magnitude below \<open>2^1024\<close>), the
  Builder uses 0 for each missing value and the pipeline yields a Verification Result
  rather than a request-level error, whichever artifact is loaded and whatever its
  probability call does.
\<close>

theorem verify_total_on_numbers:
  assumes "well_typed f"
  shows "(\<exists>r. verify m sid now f = Inr r) \<and>
         (\<forall>i < 7. f (feature_names ! i) = None \<longrightarrow>
            nd_num (extract_feature_vector f) i = Some (Fin 0))"
proof
  let ?vs = "map (\<lambda>k. dict_get f k (PInt 0)) feature_names"
  have vs: "\<forall>v \<in> set ?vs. float_sized v" using assms by (auto simp: well_typed_def)
  have len: "length ?vs = 7" by (simp add: feature_names_def)
  have "wf_arr (extract_feature_vector f)"
    using np_array_wf [OF len vs] by (simp add: extract_feature_vector_map)
  then obtain X where X: "normalize_features (extract_feature_vector f) = Inr X"
    using normalize_features_total by blast
  have rk: "rankable f" using assms by (rule well_typed_rankable)
  then have "scorable f" by (simp add: rankable_def)
  then obtain c where c: "estimate m X f = Inr c"
    using estimate_total [of f m X] by blast
  obtain es where "importance_entries f = Inr es"
    using importance_entries_total [OF rk] by blast
  then obtain rs where "get_feature_importance f c = Inr rs"
    by (simp add: get_feature_importance_def and_then_def)
  then show "\<exists>r. verify m sid now f = Inr r"
    using X c by (simp add: verify_def verify_body_def and_then_def)
  show "\<forall>i < 7. f (feature_names ! i) = None \<longrightarrow>
            nd_num (extract_feature_vector f) i = Some (Fin 0)"
  proof (intro allI impI)
    fix i :: nat assume i: "i < 7" and none: "f (feature_names ! i) = None"
    have "i < length feature_names" using i by (simp add: feature_names_def)
    then have "?vs ! i = dict_get f (feature_names ! i) (PInt 0)" by (rule nth_map)
    then have "?vs ! i = PInt 0" using none by (simp add: dict_get_def)
    moreover have "i < length ?vs" using i len by simp
    ultimately show "nd_num (extract_feature_vector f) i = Some (Fin 0)"
      using np_array_zero [OF vs] by (simp add: extract_feature_vector_map)
  qed
qed

text \<open>
  C10, as stated, fails: a present non-numeric value is not treated as 0. For
  \<^verbatim>\<open>{task_accuracy: null}\<close> the Builder puts the null into slot 2, and the request ends in
  the error response with TypeError; a string value ends the same way.
\<close>

theorem verify_rejects_non_numeric:
  "extract_feature_vector [''task_accuracy'' \<mapsto> PNone]
     = ObjArr [PInt 0, PInt 0, PNone, PInt 0, PInt 0, PInt 0, PInt 0]
   \<and> verify None (PStr ''s1'') ''t1'' [''task_accuracy'' \<mapsto> PNone] = Inl (TypeError, PStr ''s1'')
   \<and> verify None (PStr ''s1'') ''t1'' [''task_accuracy'' \<mapsto> PStr ''high'']
       = Inl (TypeError, PStr ''s1'')"
  by (simp add: verify_def verify_body_def estimate_def fallback_scoring_def fallback_score_def
      vector_eval py_eval fl_eval)

text \<open>A mapping with six of the seven values missing is scored, its missing slots being 0.\<close>

theorem verify_total_on_numbers_witness:
  "float_sized (PInt 1800) \<and>
   (\<exists>r. verify None (PStr ''s1'') ''t1'' [''avg_reaction_time'' \<mapsto> PInt 1800] = Inr r) \<and>
   map (nd_num (extract_feature_vector [''avg_reaction_time'' \<mapsto> PInt 1800])) [1, 2, 3, 4, 5, 6]
     = [Some (Fin 0), Some (Fin 0), Some (Fin 0), Some (Fin 0), Some (Fin 0), Some (Fin 0)]"
proof -
  let ?f = "[''avg_reaction_time'' \<mapsto> PInt 1800]"
  have h: "well_typed ?f"
    by (simp add: well_typed_def feature_names_def dict_get_def)
  note t = verify_total_on_numbers [OF h, of None "PStr ''s1''" "''t1''"]
  have slots: "\<And>i. i < 7 \<Longrightarrow> ?f (feature_names ! i) = None \<Longrightarrow>
      nd_num (extract_feature_vector ?f) i = Some (Fin 0)"
    using t by blast
  have "nd_num (extract_feature_vector ?f) 1 = Some (Fin 0)"
    by (rule slots) (simp_all add: feature_names_def)
  moreover have "nd_num (extract_feature_vector ?f) 2 = Some (Fin 0)"
    by (rule slots) (simp_all add: feature_names_def)
  moreover have "nd_num (extract_feature_vector ?f) 3 = Some (Fin 0)"
    by (rule slots) (simp_all add: feature_names_def)
  moreover have "nd_num (extract_feature_vector ?f) 4 = Some (Fin 0)"
    by (rule slots) (simp_all add: feature_names_def)
  moreover have "nd_num (extract_feature_vector ?f) 5 = Some (Fin 0)"
    by (rule slots) (simp_all add: feature_names_def)
  moreover have "nd_num (extract_feature_vector ?f) 6 = Some (Fin 0)"
    by (rule slots) (simp_all add: feature_names_def)
  moreover have "\<exists>r. verify None (PStr ''s1'') ''t1'' ?f = Inr r" using t by blast
  ultimately show ?thesis by simp
qed

end
